theory Spec2Isabelle
  imports Complex_Main "HOL-Library.AList" "HOL-Library.Multiset"
begin

section \<open>Common conventions\<close>

text \<open>
  Python exceptions are values: every function that can raise returns \<open>error + 'a\<close>,
  with \<open>Inl\<close> carrying the exception. Times (the shown and animation time bases,
  delays, periods) are Python floats. A float is a rational number, and comparisons of
  floats are comparisons of these numbers. Where a claim depends on sums and differences
  of arbitrary times (the state machine), the rounding of each float operation is made
  explicit; elsewhere the values are computed exactly.
  Widths, heights and grid dimensions are Python integers, modelled as \<open>int\<close>.
\<close>

datatype error =
    Exception string
  | AttributeError string
  | KeyError string
  | IndexError
  | TypeError
  | ValueError
  | NameError string
  | ZeroDivisionError

text \<open>Python's \<open>x % y\<close> on numbers: the result has the sign of the divisor;
  a zero divisor raises.\<close>

definition pymod :: "rat \<Rightarrow> rat \<Rightarrow> error + rat" where
  "pymod x y = (if y = 0 then Inl ZeroDivisionError
                else Inr (x - y * of_int \<lfloor>x / y\<rfloor>))"

text \<open>Python's true division on floats.\<close>

definition pydiv :: "rat \<Rightarrow> rat \<Rightarrow> error + rat" where
  "pydiv x y = (if y = 0 then Inl ZeroDivisionError else Inr (x / y))"

section \<open>anim.py: states, edges and the state-machine animation\<close>

text \<open>
  \<open>'d\<close> is the type of displayables, \<open>'f\<close> of the functions of an at-list,
  \<open>'p\<close> of property values, \<open>'t\<close> of transitions.
\<close>

record ('d, 'f, 'p) State =
  name :: string
  image :: "'d option"
  atlist :: "'f list"
  st_properties :: "(string \<times> 'p) list"

definition State_init ::
  "string \<Rightarrow> 'd option \<Rightarrow> 'f list \<Rightarrow> (string \<times> 'p) list \<Rightarrow> ('d, 'f, 'p) State" where
  "State_init n im ats props =
     \<lparr> name = n, image = im, atlist = ats, st_properties = props \<rparr>"

record 't Edge =
  old :: string
  e_delay :: rat
  new :: string
  trans :: "'t option"
  prob :: int

definition Edge_init :: "string \<Rightarrow> rat \<Rightarrow> string \<Rightarrow> 't option \<Rightarrow> int \<Rightarrow> 't Edge" where
  "Edge_init ol d n tr p = \<lparr> old = ol, e_delay = d, new = n, trans = tr, prob = p \<rparr>"

text \<open>\<open>State.get_image\<close>:
  \<^verbatim>\<open>
  rv = self.image
  for i in self.atlist:
      rv = i(rv)
  if self.properties:
      rv = renpy.display.layout.Position(rv, **properties)
  return rv
  \<close>
  The functions of the at-list are outside these files, so the image with these
  functions applied to it in order stays symbolic: a \<open>Picture\<close>. The name
  \<open>properties\<close> is not defined in the method, so a state that has properties raises
  \<open>NameError\<close>.\<close>

datatype ('d, 'f) picture = Picture "'d option" "'f list"

definition get_image :: "('d, 'f, 'p) State \<Rightarrow> error + ('d, 'f) picture" where
  "get_image s =
     (if st_properties s \<noteq> [] then Inl (NameError ''properties'')
      else Inr (Picture (image s) (atlist s)))"

text \<open>The displayable that \<open>update_cache\<close> composes for an edge: a transition
  applied to the pictures of the old and the new state, or one picture.\<close>

datatype ('d, 'f, 't) visual =
    ViaTrans 't "('d, 'f) picture" "('d, 'f) picture"
  | Plain "('d, 'f) picture"

record ('d, 'f, 'p, 't) SMAnimation =
  sm_delay :: "rat option"
  showold :: bool
  anim_timebase :: bool
  sm_properties :: "(string \<times> 'p) list"
  initial :: string
  states :: "(string \<times> ('d, 'f, 'p) State) list"
  edges :: "(string \<times> 't Edge list) list"
  edge_start :: "rat option"
  edge_cache :: "('d, 'f, 't) visual option"
  edge :: "'t Edge option"
  state :: "string option"

text \<open>\<open>State.add\<close>: \<open>sma.states[self.name] = self\<close>.\<close>

definition State_add ::
  "('d, 'f, 'p) State \<Rightarrow> ('d, 'f, 'p, 't) SMAnimation \<Rightarrow> ('d, 'f, 'p, 't) SMAnimation" where
  "State_add s sma = sma\<lparr> states := AList.update (name s) s (states sma) \<rparr>"

text \<open>\<open>d.setdefault(k, []).append(v)\<close> on a dictionary of lists.\<close>

definition setdefault_append :: "('k \<times> 'v list) list \<Rightarrow> 'k \<Rightarrow> 'v \<Rightarrow> ('k \<times> 'v list) list" where
  "setdefault_append d k v =
     AList.update k ((case map_of d k of None \<Rightarrow> [] | Some vs \<Rightarrow> vs) @ [v]) d"

text \<open>\<open>Edge.add\<close>: \<open>for i in range(0, self.prob): sma.edges.setdefault(self.old, []).append(self)\<close>.
  \<open>range(0, p)\<close> is empty for \<open>p \<le> 0\<close>.\<close>

definition Edge_add ::
  "'t Edge \<Rightarrow> ('d, 'f, 'p, 't) SMAnimation \<Rightarrow> ('d, 'f, 'p, 't) SMAnimation" where
  "Edge_add e sma =
     fold (\<lambda>i s. s\<lparr> edges := setdefault_append (edges s) (old e) e \<rparr>)
          [0 ..< nat (prob e)] sma"

text \<open>The positional arguments of the constructor are states and edges; each is
  added by its own \<open>add\<close> method.\<close>

datatype ('d, 'f, 'p, 't) sm_arg = AState "('d, 'f, 'p) State" | AEdge "'t Edge"

fun arg_add ::
  "('d, 'f, 'p, 't) sm_arg \<Rightarrow> ('d, 'f, 'p, 't) SMAnimation \<Rightarrow> ('d, 'f, 'p, 't) SMAnimation" where
  "arg_add (AState s) sma = State_add s sma"
| "arg_add (AEdge e) sma = Edge_add e sma"

text \<open>\<open>SMAnimation.__init__\<close>. The keywords \<open>delay\<close>, \<open>showold\<close> and
  \<open>anim_timebase\<close> are taken out of the properties (\<open>None\<close>: keyword absent); the
  rest of the properties is stored.\<close>

definition SMAnimation_init ::
  "string \<Rightarrow> ('d, 'f, 'p, 't) sm_arg list \<Rightarrow> rat option option \<Rightarrow> bool option \<Rightarrow> bool option
   \<Rightarrow> (string \<times> 'p) list \<Rightarrow> ('d, 'f, 'p, 't) SMAnimation" where
  "SMAnimation_init ini args delay_kw showold_kw anim_timebase_kw props =
     fold arg_add args
       \<lparr> sm_delay = (case delay_kw of None \<Rightarrow> None | Some d \<Rightarrow> d),
         showold = (case showold_kw of None \<Rightarrow> False | Some b \<Rightarrow> b),
         anim_timebase = (case anim_timebase_kw of None \<Rightarrow> True | Some b \<Rightarrow> b),
         sm_properties = props,
         initial = ini,
         states = [],
         edges = [],
         edge_start = None,
         edge_cache = None,
         edge = None,
         state = None \<rparr>"

text \<open>\<open>random.choice\<close> draws an index uniformly; the draw is a parameter \<open>r\<close>,
  reduced into the range of the list. An empty list raises.\<close>

definition random_choice :: "nat \<Rightarrow> 'a list \<Rightarrow> error + 'a" where
  "random_choice r xs = (if xs = [] then Inl IndexError else Inr (xs ! (r mod length xs)))"

text \<open>\<open>SMAnimation.pick_edge\<close>.\<close>

definition pick_edge ::
  "nat \<Rightarrow> string \<Rightarrow> ('d, 'f, 'p, 't) SMAnimation \<Rightarrow> error + ('d, 'f, 'p, 't) SMAnimation" where
  "pick_edge r st sma =
     (case map_of (edges sma) st of
        None \<Rightarrow> Inr (sma\<lparr> edge := None \<rparr>)
      | Some es \<Rightarrow>
          (case random_choice r es of
             Inl err \<Rightarrow> Inl err
           | Inr e \<Rightarrow> Inr (sma\<lparr> edge := Some e, state := Some (new e) \<rparr>)))"

text \<open>\<open>self.states[n].get_image()\<close>: looking a state up raises \<open>KeyError\<close> when
  it is missing.\<close>

definition lookup_state ::
  "('d, 'f, 'p, 't) SMAnimation \<Rightarrow> string \<Rightarrow> error + ('d, 'f, 'p) State" where
  "lookup_state sma n = (case map_of (states sma) n of None \<Rightarrow> Inl (KeyError n) | Some s \<Rightarrow> Inr s)"

definition state_image ::
  "('d, 'f, 'p, 't) SMAnimation \<Rightarrow> string \<Rightarrow> error + ('d, 'f) picture" where
  "state_image sma n = (case lookup_state sma n of Inl err \<Rightarrow> Inl err | Inr s \<Rightarrow> get_image s)"

text \<open>\<open>SMAnimation.update_cache\<close>: the displayable of the current edge. With a
  transition, the image of the old state is computed before that of the new one.\<close>

definition update_cache ::
  "'t Edge \<Rightarrow> ('d, 'f, 'p, 't) SMAnimation \<Rightarrow> error + ('d, 'f, 'p, 't) SMAnimation" where
  "update_cache e sma =
     (case trans e of
        Some tr \<Rightarrow>
          (case state_image sma (old e) of
             Inl err \<Rightarrow> Inl err
           | Inr po \<Rightarrow>
               (case state_image sma (new e) of
                  Inl err \<Rightarrow> Inl err
                | Inr pn \<Rightarrow> Inr (sma\<lparr> edge_cache := Some (ViaTrans tr po pn) \<rparr>)))
      | None \<Rightarrow>
          if showold sma then
            (case state_image sma (old e) of
               Inl err \<Rightarrow> Inl err
             | Inr po \<Rightarrow> Inr (sma\<lparr> edge_cache := Some (Plain po) \<rparr>))
          else
            (case state_image sma (new e) of
               Inl err \<Rightarrow> Inl err
             | Inr pn \<Rightarrow> Inr (sma\<lparr> edge_cache := Some (Plain pn) \<rparr>)))"

text \<open>
  The arithmetic of \<open>SMAnimation.render\<close>. The result of a float addition or
  subtraction is the exact result rounded to a float; the rounding \<open>rnd\<close> is a
  parameter of the model, so that what is proved holds of every rounding: of the
  rounding of Python's floats, and of exact arithmetic (Python's integers), where
  \<open>rnd\<close> is the identity.
\<close>

definition fadd :: "(rat \<Rightarrow> rat) \<Rightarrow> rat \<Rightarrow> rat \<Rightarrow> rat" where
  "fadd rnd x y = rnd (x + y)"

definition fsub :: "(rat \<Rightarrow> rat) \<Rightarrow> rat \<Rightarrow> rat \<Rightarrow> rat" where
  "fsub rnd x y = rnd (x - y)"

text \<open>
  The catch-up loop of \<open>SMAnimation.render\<close>:
  \<^verbatim>\<open>
  while self.edge and t > self.edge_start + self.edge.delay:
      self.edge_start += self.edge.delay
      self.edge_cache = None
      self.pick_edge(self.edge.new)
  \<close>
  The loop need not terminate (a cycle of edges without delay, or a delay that is lost
  in the rounding), so it is a partial function: \<open>None\<close> is a loop that runs forever.
  \<open>rs k\<close> is the random draw available to the \<open>k\<close>-th call of \<open>pick_edge\<close>.
\<close>

partial_function (option) catch_up ::
  "(rat \<Rightarrow> rat) \<Rightarrow> (nat \<Rightarrow> nat) \<Rightarrow> rat \<Rightarrow> ('d, 'f, 'p, 't) SMAnimation \<Rightarrow> nat
   \<Rightarrow> (error + ('d, 'f, 'p, 't) SMAnimation \<times> nat) option" where
  "catch_up rnd rs t sma k =
     (case edge sma of
        None \<Rightarrow> Some (Inr (sma, k))
      | Some e \<Rightarrow>
          (case edge_start sma of
             None \<Rightarrow> Some (Inl TypeError)
           | Some es \<Rightarrow>
               if t > fadd rnd es (e_delay e) then
                 (case pick_edge (rs k) (new e)
                         (sma\<lparr> edge_start := Some (fadd rnd es (e_delay e)),
                               edge_cache := None \<rparr>) of
                    Inl err \<Rightarrow> Some (Inl err)
                  | Inr sma' \<Rightarrow> catch_up rnd rs t sma' (Suc k))
               else Some (Inr (sma, k))))"

declare catch_up.simps [code]

text \<open>What one call of \<open>render\<close> hands to the renderer: the displayable drawn,
  the time it is drawn at, and the redraw it asks for (if any).\<close>

record ('d, 'f, 't) sm_frame =
  shown :: "('d, 'f, 't) visual"
  shown_at :: rat
  redraw :: "rat option"

text \<open>The first part of \<open>SMAnimation.render\<close>: the reset on a first call or a time
  regression.\<close>

definition render_start ::
  "(nat \<Rightarrow> nat) \<Rightarrow> rat \<Rightarrow> ('d, 'f, 'p, 't) SMAnimation \<Rightarrow> nat
   \<Rightarrow> error + ('d, 'f, 'p, 't) SMAnimation \<times> nat" where
  "render_start rs t sma k =
     (if (case edge_start sma of None \<Rightarrow> True | Some es \<Rightarrow> t < es) then
        (case pick_edge (rs k) (initial sma) (sma\<lparr> edge_start := Some t, edge_cache := None \<rparr>) of
           Inl err \<Rightarrow> Inl err
         | Inr sma' \<Rightarrow> Inr (sma', Suc k))
      else Inr (sma, k))"

text \<open>The last part of \<open>SMAnimation.render\<close>: what is drawn once the loop is done.
  Without an edge it is the image of \<open>self.state\<close>, at the shown time less the edge
  start; with an edge it is the cached displayable of the edge (composed now when the
  cache is empty), and a redraw is requested for the rest of the delay.\<close>

definition render_frame ::
  "(rat \<Rightarrow> rat) \<Rightarrow> rat \<Rightarrow> rat \<Rightarrow> ('d, 'f, 'p, 't) SMAnimation
   \<Rightarrow> error + ('d, 'f, 't) sm_frame \<times> ('d, 'f, 'p, 't) SMAnimation" where
  "render_frame rnd st t sma =
     (case edge sma of
        None \<Rightarrow>
          (case state sma of
             None \<Rightarrow> Inl (KeyError ''None'')
           | Some n \<Rightarrow>
               (case state_image sma n of
                  Inl err \<Rightarrow> Inl err
                | Inr p \<Rightarrow>
                    (case edge_start sma of
                       None \<Rightarrow> Inl TypeError
                     | Some es \<Rightarrow>
                         Inr (\<lparr> shown = Plain p, shown_at = fsub rnd st es, redraw = None \<rparr>,
                              sma))))
      | Some e \<Rightarrow>
          (case (case edge_cache sma of None \<Rightarrow> update_cache e sma | Some _ \<Rightarrow> Inr sma) of
             Inl err \<Rightarrow> Inl err
           | Inr sma' \<Rightarrow>
               (case edge_cache sma' of
                  None \<Rightarrow> Inl TypeError
                | Some v \<Rightarrow>
                    (case edge_start sma' of
                       None \<Rightarrow> Inl TypeError
                     | Some es \<Rightarrow>
                         Inr (\<lparr> shown = v, shown_at = fsub rnd t es,
                                redraw = Some (fsub rnd (e_delay e) (fsub rnd t es)) \<rparr>,
                              sma')))))"

text \<open>\<open>SMAnimation.render\<close>, with the state of the animation and the number of
  draws made so far passed through.\<close>

definition SMAnimation_render ::
  "(rat \<Rightarrow> rat) \<Rightarrow> (nat \<Rightarrow> nat) \<Rightarrow> rat \<Rightarrow> rat \<Rightarrow> ('d, 'f, 'p, 't) SMAnimation \<Rightarrow> nat
   \<Rightarrow> (error + ('d, 'f, 't) sm_frame \<times> ('d, 'f, 'p, 't) SMAnimation \<times> nat) option" where
  "SMAnimation_render rnd rs st at' sma k =
     (let t = (if anim_timebase sma then at' else st) in
      case render_start rs t sma k of
        Inl err \<Rightarrow> Some (Inl err)
      | Inr (sma1, k1) \<Rightarrow>
          (case catch_up rnd rs t sma1 k1 of
             None \<Rightarrow> None
           | Some (Inl err) \<Rightarrow> Some (Inl err)
           | Some (Inr (sma2, k2)) \<Rightarrow>
               (case render_frame rnd st t sma2 of
                  Inl err \<Rightarrow> Some (Inl err)
                | Inr (fr, sma3) \<Rightarrow> Some (Inr (fr, sma3, k2)))))"

text \<open>\<open>State.motion_copy\<close>. The source reads \<open>self.mage\<close>, an attribute that no
  \<open>State\<close> has, whenever the image is set.\<close>

definition motion_copy :: "('d, 'f, 'p) State \<Rightarrow> 'd option \<Rightarrow> error + ('d, 'f, 'p) State" where
  "motion_copy s child' =
     (if image s \<noteq> None then Inl (AttributeError ''mage'')
      else Inr (State_init (name s) child' (atlist s) []))"

text \<open>Running a fallible function over a list, stopping at the first exception.\<close>

fun map_err :: "('a \<Rightarrow> error + 'b) \<Rightarrow> 'a list \<Rightarrow> error + 'b list" where
  "map_err f [] = Inr []"
| "map_err f (x # xs) =
     (case f x of
        Inl err \<Rightarrow> Inl err
      | Inr y \<Rightarrow> (case map_err f xs of Inl err \<Rightarrow> Inl err | Inr ys \<Rightarrow> Inr (y # ys)))"

text \<open>\<open>SMAnimation.__call__\<close>: the copies of the states, then every entry of every
  adjacency list, are the arguments of a new \<open>SMAnimation\<close>. Only \<open>delay\<close> is passed
  as a keyword; \<open>showold\<close> and \<open>anim_timebase\<close> were deleted from the stored
  properties by the constructor.\<close>

definition SMAnimation_call ::
  "('d, 'f, 'p, 't) SMAnimation \<Rightarrow> 'd option \<Rightarrow> 'd option
   \<Rightarrow> error + ('d, 'f, 'p, 't) SMAnimation" where
  "SMAnimation_call sma child' new_widget =
     (let c = (case child' of None \<Rightarrow> new_widget | Some _ \<Rightarrow> child') in
      case map_err (\<lambda>s. motion_copy s c) (map snd (states sma)) of
        Inl err \<Rightarrow> Inl err
      | Inr copies \<Rightarrow>
          Inr (SMAnimation_init (initial sma)
                 (map AState copies @ map AEdge (concat (map snd (edges sma))))
                 (Some (sm_delay sma)) None None (sm_properties sma)))"

subsection \<open>Animation\<close>

text \<open>The positional arguments of \<open>Animation\<close> are images and numbers; the
  constructor sorts them by position only.\<close>

datatype 'd anim_arg = Img 'd | Num rat

record 'd Animation =
  a_anim_timebase :: bool
  images :: "'d anim_arg list"
  delays :: "'d anim_arg list"

text \<open>The loop of \<open>Animation.__init__\<close> over \<open>enumerate(args)\<close>; \<open>im.image(arg,
  loose=True)\<close> is outside this repository and keeps a displayable as it is.\<close>

fun sort_args :: "nat \<Rightarrow> 'd anim_arg list \<Rightarrow> 'd Animation \<Rightarrow> 'd Animation" where
  "sort_args i [] a = a"
| "sort_args i (arg # args) a =
     sort_args (Suc i) args
       (if i mod 2 = 0 then a\<lparr> images := images a @ [arg] \<rparr>
        else a\<lparr> delays := delays a @ [arg] \<rparr>)"

definition Animation_init :: "'d anim_arg list \<Rightarrow> bool option \<Rightarrow> 'd Animation" where
  "Animation_init args anim_timebase_kw =
     (let a = sort_args 0 args
                \<lparr> a_anim_timebase = (case anim_timebase_kw of None \<Rightarrow> True | Some b \<Rightarrow> b),
                  images = [], delays = [] \<rparr>
      in if length (images a) > length (delays a)
         then a\<lparr> delays := delays a @ [Num (36525 / 100 * 86400)] \<rparr>
         else a)"

text \<open>\<open>sum(self.delays)\<close> and the comparisons of the scan need numbers.\<close>

fun numbers :: "'d anim_arg list \<Rightarrow> error + rat list" where
  "numbers [] = Inr []"
| "numbers (Img _ # xs) = Inl TypeError"
| "numbers (Num d # xs) = (case numbers xs of Inl err \<Rightarrow> Inl err | Inr ds \<Rightarrow> Inr (d # ds))"

text \<open>The scan of \<open>Animation.render\<close> with its running subtraction. The result is
  the image drawn and the redraw delay asked for; \<open>None\<close> when the loop ends without
  a \<open>return\<close>.\<close>

fun scan :: "rat \<Rightarrow> ('i \<times> rat) list \<Rightarrow> ('i \<times> rat) option" where
  "scan t [] = None"
| "scan t ((im, d) # rest) = (if t < d then Some (im, d - t) else scan (t - d) rest)"

definition Animation_render ::
  "'d Animation \<Rightarrow> rat \<Rightarrow> rat \<Rightarrow> error + ('d anim_arg \<times> rat) option" where
  "Animation_render a st at' =
     (case numbers (delays a) of
        Inl err \<Rightarrow> Inl err
      | Inr ds \<Rightarrow>
          (case pymod (if a_anim_timebase a then at' else st) (sum_list ds) of
             Inl err \<Rightarrow> Inl err
           | Inr t \<Rightarrow> Inr (scan t (zip (images a) ds))))"

subsection \<open>Notions for stating properties of the state machine\<close>

text \<open>The adjacency list of a state: the list stored under its name, empty when the
  name has no entry.\<close>

definition adjacency :: "('d, 'f, 'p, 't) SMAnimation \<Rightarrow> string \<Rightarrow> 't Edge list" where
  "adjacency sma st = (case map_of (edges sma) st of None \<Rightarrow> [] | Some es \<Rightarrow> es)"

text \<open>The entries one constructor argument contributes to the adjacency list of \<open>st\<close>,
  and the weight it contributes to the outgoing edges of \<open>st\<close>.\<close>

fun replicas :: "string \<Rightarrow> ('d, 'f, 'p, 't) sm_arg \<Rightarrow> 't Edge list" where
  "replicas st (AState s) = []"
| "replicas st (AEdge e) = (if old e = st then replicate (nat (prob e)) e else [])"

fun weight :: "string \<Rightarrow> ('d, 'f, 'p, 't) sm_arg \<Rightarrow> int" where
  "weight st (AState s) = 0"
| "weight st (AEdge e) = (if old e = st then prob e else 0)"

text \<open>
  The edges a run of the catch-up loop completes. \<open>completes rnd rs t sma k es sma' k'\<close>:
  started in \<open>sma\<close> with \<open>k\<close> draws made, the loop completes the edges \<open>es\<close> in this
  order and arrives at \<open>sma'\<close> with \<open>k'\<close> draws made. An edge is completed when the
  time \<open>t\<close> is strictly past its start plus its delay; the start then becomes this
  sum, and the next edge is picked from the state the edge leads to.
\<close>

inductive completes ::
  "(rat \<Rightarrow> rat) \<Rightarrow> (nat \<Rightarrow> nat) \<Rightarrow> rat \<Rightarrow> ('d, 'f, 'p, 't) SMAnimation \<Rightarrow> nat \<Rightarrow> 't Edge list
   \<Rightarrow> ('d, 'f, 'p, 't) SMAnimation \<Rightarrow> nat \<Rightarrow> bool"
  for rnd :: "rat \<Rightarrow> rat" and rs :: "nat \<Rightarrow> nat" and t :: rat where
  completes_none: "completes rnd rs t sma k [] sma k"
| completes_edge:
    "edge sma = Some e \<Longrightarrow> edge_start sma = Some es \<Longrightarrow> t > fadd rnd es (e_delay e) \<Longrightarrow>
     pick_edge (rs k) (new e)
       (sma\<lparr> edge_start := Some (fadd rnd es (e_delay e)), edge_cache := None \<rparr>)
       = Inr sma' \<Longrightarrow>
     completes rnd rs t sma' (Suc k) finished sma'' k'' \<Longrightarrow>
     completes rnd rs t sma k (e # finished) sma'' k''"

text \<open>The loop has nothing left to do: there is no current edge, or the current edge
  is not yet past its delay.\<close>

definition settled :: "(rat \<Rightarrow> rat) \<Rightarrow> rat \<Rightarrow> ('d, 'f, 'p, 't) SMAnimation \<Rightarrow> bool" where
  "settled rnd t sma =
     (case edge sma of
        None \<Rightarrow> True
      | Some e \<Rightarrow>
          (case edge_start sma of None \<Rightarrow> False | Some es \<Rightarrow> t \<le> fadd rnd es (e_delay e)))"

text \<open>The delays added to a starting time one after the other, each sum rounded as
  the code's \<open>+=\<close> rounds it.\<close>

definition advanced :: "(rat \<Rightarrow> rat) \<Rightarrow> rat \<Rightarrow> rat list \<Rightarrow> rat" where
  "advanced rnd start ds = foldl (fadd rnd) start ds"

text \<open>The time the delays of one \<open>render\<close> call are counted from: the time of the
  call when the animation is started or restarted by it, the stored edge start
  otherwise.\<close>

definition render_origin :: "rat \<Rightarrow> ('d, 'f, 'p, 't) SMAnimation \<Rightarrow> rat" where
  "render_origin t sma = (case edge_start sma of None \<Rightarrow> t | Some es \<Rightarrow> if t < es then t else es)"


text \<open>Completing the edge \<open>e\<close> moves an edge start between \<open>lo\<close> and \<open>hi\<close> forward by at
  least \<open>d\<close>: the delay is not lost in the rounding.\<close>

definition gains :: "(rat \<Rightarrow> rat) \<Rightarrow> rat \<Rightarrow> rat \<Rightarrow> rat \<Rightarrow> 't Edge \<Rightarrow> bool" where
  "gains rnd d lo hi e \<longleftrightarrow> (\<forall>x. lo \<le> x \<and> x \<le> hi \<longrightarrow> x + d \<le> fadd rnd x (e_delay e))"

section \<open>layout.py: containers\<close>

text \<open>
  The renderer (\<open>renpy.display.render.render\<close>) and \<open>Displayable.place\<close> are
  outside these files; they are parameters. \<open>render R c w h st at\<close> is the size of
  the surface the renderer returns for the child \<open>c\<close> (\<open>None\<close>: it returns a false
  value), and \<open>place R c x y w h size\<close> is the offset that \<open>c.place(rv, x, y, w, h,
  surf)\<close> returns. \<open>'c\<close> is the type of child displayables.

  A \<open>render\<close> method returns its outcome (the size of its rendering, or the exception
  raised) together with the container as the call leaves it.
\<close>

record 'c renderer =
  render :: "'c \<Rightarrow> int \<Rightarrow> int \<Rightarrow> rat \<Rightarrow> rat \<Rightarrow> (int \<times> int) option"
  place :: "'c \<Rightarrow> int \<Rightarrow> int \<Rightarrow> int \<Rightarrow> int \<Rightarrow> int \<times> int \<Rightarrow> int \<times> int"

text \<open>\<open>render(child, ...).get_size()\<close>: a child that is \<open>None\<close> cannot be rendered, and
  a false surface has no size.\<close>

definition render_size ::
  "'c renderer \<Rightarrow> 'c option \<Rightarrow> int \<Rightarrow> int \<Rightarrow> rat \<Rightarrow> rat \<Rightarrow> error + int \<times> int" where
  "render_size R c w h st at' =
     (case c of
        None \<Rightarrow> Inl (AttributeError ''render'')
      | Some ch \<Rightarrow>
          (case render R ch w h st at' of
             None \<Rightarrow> Inl (AttributeError ''get_size'')
           | Some sz \<Rightarrow> Inr sz))"

subsection \<open>Container\<close>

record 'c Container =
  children :: "'c list"
  child :: "'c option"
  offsets :: "(int \<times> int) list"
  sizes :: "(int \<times> int) list"

text \<open>\<open>Container.add\<close>: a child that is \<open>None\<close> is not added.\<close>

definition Container_add ::
  "'c option \<Rightarrow> ('c, 'z) Container_scheme \<Rightarrow> ('c, 'z) Container_scheme" where
  "Container_add w c =
     (case w of
        None \<Rightarrow> c
      | Some ch \<Rightarrow> c\<lparr> children := children c @ [ch], child := Some ch \<rparr>)"

text \<open>\<open>Container.__init__\<close>. The attributes \<open>offsets\<close> and \<open>sizes\<close> are first set
  by \<open>render\<close>; they start empty here.\<close>

definition Container_init :: "'c option list \<Rightarrow> 'c Container" where
  "Container_init args =
     fold Container_add args \<lparr> children = [], child = None, offsets = [], sizes = [] \<rparr>"

text \<open>\<open>Container.render\<close>: renders \<open>self.child\<close>, the child added last.\<close>

definition Container_render ::
  "'c renderer \<Rightarrow> ('c, 'z) Container_scheme \<Rightarrow> int \<Rightarrow> int \<Rightarrow> rat \<Rightarrow> rat
   \<Rightarrow> (error + int \<times> int) \<times> ('c, 'z) Container_scheme" where
  "Container_render R c width height st at' =
     (case render_size R (child c) width height st at' of
        Inl err \<Rightarrow> (Inl err, c)
      | Inr sz \<Rightarrow> (Inr sz, c\<lparr> offsets := [(0, 0)], sizes := [sz] \<rparr>))"

subsection \<open>Fixed\<close>

record 'c Fixed = "'c Container" +
  start_times :: "rat option list"
  anim_times :: "rat option list"

definition Fixed_init :: "'c Fixed" where
  "Fixed_init =
     \<lparr> children = [], child = None, offsets = [], sizes = [],
       start_times = [], anim_times = [] \<rparr>"

definition Fixed_add :: "'c option \<Rightarrow> rat option \<Rightarrow> rat option \<Rightarrow> 'c Fixed \<Rightarrow> 'c Fixed" where
  "Fixed_add w start_time anim_time f =
     (Container_add w f)
       \<lparr> start_times := start_times f @ [start_time],
         anim_times := anim_times f @ [anim_time] \<rparr>"

text \<open>\<open>i or it\<close> on a time that may be \<open>None\<close>: \<open>None\<close> and 0 are false.\<close>

definition or_time :: "rat option \<Rightarrow> rat \<Rightarrow> rat" where
  "or_time i it = (case i of None \<Rightarrow> it | Some x \<Rightarrow> if x = 0 then it else x)"

text \<open>The loop of \<open>Fixed.render\<close> over \<open>zip(children, start_times, anim_times)\<close>,
  appending to \<open>sizes\<close> and \<open>offsets\<close>.\<close>

fun Fixed_loop ::
  "'c renderer \<Rightarrow> rat \<Rightarrow> int \<Rightarrow> int \<Rightarrow> ('c \<times> rat \<times> rat) list \<Rightarrow> 'c Fixed \<Rightarrow> 'c Fixed" where
  "Fixed_loop R t width height [] f = f"
| "Fixed_loop R t width height ((c, start, anim) # rest) f =
     Fixed_loop R t width height rest
       (case render R c width height (t - start) (t - anim) of
          Some sz \<Rightarrow>
            f\<lparr> sizes := sizes f @ [sz],
               offsets := offsets f @ [place R c 0 0 width height sz] \<rparr>
        | None \<Rightarrow>
            f\<lparr> sizes := sizes f @ [(0, 0)], offsets := offsets f @ [(0, 0)] \<rparr>)"

text \<open>\<open>Fixed.render\<close>; \<open>t\<close> and \<open>it\<close> are the frame time and the interaction time
  of the interface.\<close>

definition Fixed_render ::
  "'c renderer \<Rightarrow> rat \<Rightarrow> rat \<Rightarrow> 'c Fixed \<Rightarrow> int \<Rightarrow> int \<Rightarrow> rat \<Rightarrow> rat
   \<Rightarrow> (error + int \<times> int) \<times> 'c Fixed" where
  "Fixed_render R t it f width height st at' =
     (let starts = map (\<lambda>i. or_time i it) (start_times f);
          anims = map (\<lambda>i. or_time i it) (anim_times f);
          f1 = f\<lparr> offsets := [], sizes := [],
                  start_times := map Some starts, anim_times := map Some anims \<rparr>
      in (Inr (width, height),
          Fixed_loop R t width height (zip (children f1) (zip starts anims)) f1))"

subsection \<open>Position\<close>

definition Position_init :: "'c option \<Rightarrow> 'c Container" where
  "Position_init w = Container_add w \<lparr> children = [], child = None, offsets = [], sizes = [] \<rparr>"

definition Position_render ::
  "'c renderer \<Rightarrow> 'c Container \<Rightarrow> int \<Rightarrow> int \<Rightarrow> rat \<Rightarrow> rat
   \<Rightarrow> (error + int \<times> int) \<times> 'c Container" where
  "Position_render R c width height st at' =
     (case render_size R (child c) width height st at' of
        Inl err \<Rightarrow> (Inl err, c)
      | Inr (cw, ch) \<Rightarrow> (Inr (cw, ch), c\<lparr> offsets := [(0, 0)], sizes := [(cw, ch)] \<rparr>))"

subsection \<open>Grid\<close>

record 'c Grid = "'c Container" +
  cols :: int
  rows :: int
  padding :: int
  transpose :: bool
  xfill :: bool
  yfill :: bool

definition Grid_init :: "int \<Rightarrow> int \<Rightarrow> int \<Rightarrow> bool \<Rightarrow> bool \<Rightarrow> bool \<Rightarrow> 'c Grid" where
  "Grid_init c r p tr xf yf =
     \<lparr> children = [], child = None, offsets = [], sizes = [],
       cols = c, rows = r, padding = p, transpose = tr, xfill = xf, yfill = yf \<rparr>"

text \<open>Python's \<open>range(0, n)\<close>.\<close>

definition range0 :: "int \<Rightarrow> int list" where
  "range0 n = map int [0 ..< nat n]"

text \<open>
  The transposition of \<open>Grid.render\<close>:
  \<^verbatim>\<open>
  old_children = self.children[:]
  for y in range(0, rows):
      for x in range(0, cols):
          self.children[x + y * cols] = old_children[ y + x * rows ]
  \<close>
  It runs after the check of the number of children, so every index is within the list.
\<close>

definition transposed :: "int \<Rightarrow> int \<Rightarrow> 'c list \<Rightarrow> 'c list" where
  "transposed c r old_children =
     fold (\<lambda>y chs.
             fold (\<lambda>x chs. chs[nat (x + y * c) := old_children ! nat (y + x * r)])
                  (range0 c) chs)
          (range0 r) old_children"

text \<open>Integer division as in Python 2: it rounds down, and raises on a zero divisor.\<close>

definition int_div :: "int \<Rightarrow> int \<Rightarrow> error + int" where
  "int_div a b = (if b = 0 then Inl ZeroDivisionError else Inr (a div b))"

text \<open>The size of a cell: the largest width and height among the children's sizes,
  from 0.\<close>

definition cell_size :: "(int \<times> int) list \<Rightarrow> int \<times> int" where
  "cell_size szs = fold (\<lambda>(w, h) (cw, ch). (max cw w, max ch h)) szs (0, 0)"

text \<open>The placement loop of \<open>Grid.render\<close>, rows outside and columns inside.\<close>

definition Grid_offsets ::
  "'c renderer \<Rightarrow> 'c Grid \<Rightarrow> (int \<times> int) list \<Rightarrow> int \<Rightarrow> int \<Rightarrow> (int \<times> int) list" where
  "Grid_offsets R g renders cwidth cheight =
     concat (map (\<lambda>y. map (\<lambda>x.
         place R (children g ! nat (x + y * cols g))
           (x * (cwidth + padding g)) (y * (cheight + padding g)) cwidth cheight
           (renders ! nat (x + y * cols g)))
       (range0 (cols g))) (range0 (rows g)))"

text \<open>The first step of \<open>Grid.render\<close> after the check: the transposition, done
  when the flag is set, which it clears.\<close>

definition Grid_transpose :: "'c Grid \<Rightarrow> 'c Grid" where
  "Grid_transpose g =
     (if transpose g
      then g\<lparr> transpose := False, children := transposed (cols g) (rows g) (children g) \<rparr>
      else g)"

text \<open>The last step of \<open>Grid.render\<close>: from the sizes of the rendered children to
  the size of the grid and the offsets of the cells.\<close>

definition Grid_cells ::
  "'c renderer \<Rightarrow> 'c Grid \<Rightarrow> int \<Rightarrow> int \<Rightarrow> (int \<times> int) list
   \<Rightarrow> (error + int \<times> int) \<times> 'c Grid" where
  "Grid_cells R g renwidth renheight renders =
     (let g2 = g\<lparr> sizes := renders \<rparr>;
          (cw, ch) = cell_size renders;
          cwidth = (if xfill g2 then renwidth else cw);
          cheight = (if yfill g2 then renheight else ch)
      in (Inr (cwidth * cols g2 + padding g2 * (cols g2 - 1),
               cheight * rows g2 + padding g2 * (rows g2 - 1)),
          g2\<lparr> offsets := Grid_offsets R g2 renders cwidth cheight \<rparr>))"

text \<open>The rendering proper (``Now, start the actual rendering''): the size offered to
  each child, the rendering of the children, and the cells.\<close>

definition Grid_layout ::
  "'c renderer \<Rightarrow> 'c Grid \<Rightarrow> int \<Rightarrow> int \<Rightarrow> rat \<Rightarrow> rat \<Rightarrow> (error + int \<times> int) \<times> 'c Grid" where
  "Grid_layout R g width height st at' =
     (case (if xfill g then int_div (width - (cols g - 1) * padding g) (cols g)
            else Inr width) of
        Inl err \<Rightarrow> (Inl err, g)
      | Inr renwidth \<Rightarrow>
          (case (if yfill g then int_div (height - (rows g - 1) * padding g) (rows g)
                 else Inr height) of
             Inl err \<Rightarrow> (Inl err, g)
           | Inr renheight \<Rightarrow>
               (case map_err (\<lambda>c. render_size R (Some c) renwidth renheight st at')
                       (children g) of
                  Inl err \<Rightarrow> (Inl err, g)
                | Inr renders \<Rightarrow> Grid_cells R g renwidth renheight renders)))"

text \<open>\<open>Grid.render\<close>.\<close>

definition Grid_render ::
  "'c renderer \<Rightarrow> 'c Grid \<Rightarrow> int \<Rightarrow> int \<Rightarrow> rat \<Rightarrow> rat \<Rightarrow> (error + int \<times> int) \<times> 'c Grid" where
  "Grid_render R g width height st at' =
     (if int (length (children g)) \<noteq> cols g * rows g then
        (Inl (Exception ''Grid not completely full.''), g)
      else Grid_layout R (Grid_transpose g) width height st at')"

subsection \<open>MultiBox\<close>

record 'c MultiBox = "'c Container" +
  box_layout :: "string option"
  box_spacing :: int
  default_layout :: "string option"

definition MultiBox_init :: "int \<Rightarrow> string option \<Rightarrow> string option \<Rightarrow> 'c MultiBox" where
  "MultiBox_init spacing layout style_layout =
     \<lparr> children = [], child = None, offsets = [], sizes = [],
       box_layout = style_layout, box_spacing = spacing, default_layout = layout \<rparr>"

text \<open>The measuring loop of the horizontal path: the offsets along the axis, the
  sizes of the children, the position reached and the largest height.\<close>

fun hbox_loop ::
  "'c renderer \<Rightarrow> int \<Rightarrow> int \<Rightarrow> rat \<Rightarrow> rat \<Rightarrow> 'c list
   \<Rightarrow> int \<Rightarrow> int \<Rightarrow> int \<Rightarrow> int list \<Rightarrow> 'c MultiBox
   \<Rightarrow> (error + int \<times> int \<times> int list) \<times> 'c MultiBox" where
  "hbox_loop R pad height st at' [] remwidth xo myheight xoffsets b =
     (Inr (xo, myheight, xoffsets), b)"
| "hbox_loop R pad height st at' (c # rest) remwidth xo myheight xoffsets b =
     (case render_size R (Some c) remwidth height st at' of
        Inl err \<Rightarrow> (Inl err, b)
      | Inr (sw, sh) \<Rightarrow>
          hbox_loop R pad height st at' rest (remwidth - sw - pad) (xo + (sw + pad))
            (max sh myheight) (xoffsets @ [xo]) (b\<lparr> sizes := sizes b @ [(sw, sh)] \<rparr>))"

text \<open>The same loop of the vertical path.\<close>

fun vbox_loop ::
  "'c renderer \<Rightarrow> int \<Rightarrow> int \<Rightarrow> rat \<Rightarrow> rat \<Rightarrow> 'c list
   \<Rightarrow> int \<Rightarrow> int \<Rightarrow> int \<Rightarrow> int list \<Rightarrow> 'c MultiBox
   \<Rightarrow> (error + int \<times> int \<times> int list) \<times> 'c MultiBox" where
  "vbox_loop R pad width st at' [] remheight yo mywidth yoffsets b =
     (Inr (yo, mywidth, yoffsets), b)"
| "vbox_loop R pad width st at' (c # rest) remheight yo mywidth yoffsets b =
     (case render_size R (Some c) width remheight st at' of
        Inl err \<Rightarrow> (Inl err, b)
      | Inr (sw, sh) \<Rightarrow>
          vbox_loop R pad width st at' rest (remheight - sh - pad) (yo + (sh + pad))
            (max sw mywidth) (yoffsets @ [yo]) (b\<lparr> sizes := sizes b @ [(sw, sh)] \<rparr>))"

text \<open>\<open>MultiBox.render\<close>. The second loop of each path places the children; it runs
  over \<open>zip(surfaces, self.children, offsets)\<close>, and the surfaces are the sizes
  measured.\<close>

definition MultiBox_render ::
  "'c renderer \<Rightarrow> 'c MultiBox \<Rightarrow> int \<Rightarrow> int \<Rightarrow> rat \<Rightarrow> rat
   \<Rightarrow> (error + int \<times> int) \<times> 'c MultiBox" where
  "MultiBox_render R b width height st at' =
     (let layout = (case box_layout b of None \<Rightarrow> default_layout b | Some l \<Rightarrow> Some l);
          pad = box_spacing b;
          b0 = b\<lparr> offsets := [], sizes := [] \<rparr>
      in if layout = Some ''horizontal'' then
           (case hbox_loop R pad height st at' (children b0) width 0 0 [] b0 of
              (Inl err, b1) \<Rightarrow> (Inl err, b1)
            | (Inr (xo, myheight, xoffsets), b1) \<Rightarrow>
                (Inr (xo - pad, myheight),
                 b1\<lparr> offsets :=
                       map (\<lambda>((sw, sh), c, x). place R c x 0 sw myheight (sw, sh))
                           (zip (sizes b1) (zip (children b1) xoffsets)) \<rparr>))
         else
           (case vbox_loop R pad width st at' (children b0) height 0 0 [] b0 of
              (Inl err, b1) \<Rightarrow> (Inl err, b1)
            | (Inr (yo, mywidth, yoffsets), b1) \<Rightarrow>
                (Inr (mywidth, yo - pad),
                 b1\<lparr> offsets :=
                       map (\<lambda>((sw, sh), c, y). place R c 0 y mywidth sh (sw, sh))
                           (zip (sizes b1) (zip (children b1) yoffsets)) \<rparr>)))"

subsection \<open>Notions for stating properties of the containers\<close>

text \<open>In a grid of \<open>C\<close> columns and \<open>R\<close> rows, the cell stored at index \<open>k\<close> (row
  \<open>k div C\<close>, column \<open>k mod C\<close>) is, counting down the columns, cell number
  \<open>k div C + (k mod C) * R\<close>.\<close>

definition cell_source :: "nat \<Rightarrow> nat \<Rightarrow> nat \<Rightarrow> nat" where
  "cell_source C R k = k div C + (k mod C) * R"

text \<open>A sequence of further \<open>render\<close> calls on a grid, each with its own
  arguments.\<close>

definition Grid_renders ::
  "'c renderer \<Rightarrow> (int \<times> int \<times> rat \<times> rat) list \<Rightarrow> 'c Grid \<Rightarrow> 'c Grid" where
  "Grid_renders R calls g = fold (\<lambda>(w, h, st, at') g. snd (Grid_render R g w h st at')) calls g"


text \<open>The bookkeeping of a container is aligned with its children: one offset and
  one size for each child.\<close>

definition aligned :: "('c, 'z) Container_scheme \<Rightarrow> bool" where
  "aligned c \<longleftrightarrow> length (offsets c) = length (children c) \<and> length (sizes c) = length (children c)"


section \<open>layout.py: Motion and Zoom\<close>

subsection \<open>Motion\<close>

text \<open>
  \<open>Motion.__init__\<close> sets \<open>self.children = [ child ]\<close> itself, also when the child
  is \<open>None\<close>; the list of children of a \<open>Motion\<close> therefore holds optional children.
  The function of the motion returns a tuple of positions, modelled as a list. The four
  position properties of the style that \<open>render\<close> overrides are fields.
\<close>

record 'c Motion =
  m_children :: "'c option list"
  m_child :: "'c option"
  m_offsets :: "(int \<times> int) list"
  m_sizes :: "(int \<times> int) list"
  func :: "rat \<Rightarrow> rat list"
  period :: rat
  m_repeat :: bool
  bounce :: bool
  m_delay :: "rat option"
  m_anim_timebase :: bool
  xpos :: "rat option"
  ypos :: "rat option"
  xanchor :: "rat option"
  yanchor :: "rat option"

definition Motion_init ::
  "(rat \<Rightarrow> rat list) \<Rightarrow> rat \<Rightarrow> 'c option \<Rightarrow> 'c option \<Rightarrow> bool \<Rightarrow> bool \<Rightarrow> rat option \<Rightarrow> bool
   \<Rightarrow> 'c Motion" where
  "Motion_init f p child' new_widget rep bnc dl atb =
     (let c = (case child' of None \<Rightarrow> new_widget | Some _ \<Rightarrow> child');
          d = (if dl = None \<and> \<not> rep then Some p else dl)
      in \<lparr> m_children = [c], m_child = c, m_offsets = [], m_sizes = [],
           func = f, period = p, m_repeat = rep, bounce = bnc, m_delay = d,
           m_anim_timebase = atb,
           xpos = None, ypos = None, xanchor = None, yanchor = None \<rparr>)"

text \<open>
  The first part of \<open>Motion.render\<close>: from the time of the chosen time base to the
  value handed to the function, with the redraws requested on the way.
  \<^verbatim>\<open>
  if self.delay and t >= self.delay:
      t = self.delay
      if self.repeat:
          t = t % self.period
  elif self.repeat:
      t = t % self.period
      renpy.display.render.redraw(self, 0)
  else:
      if t > self.period:
          t = self.period
      else:
          renpy.display.render.redraw(self, 0)
  t /= self.period
  if self.bounce:
      t = t * 2
      if t > 1.0:
          t = 2.0 - t
  \<close>
  A delay that is \<open>None\<close> or 0 is false.
\<close>

definition Motion_progress :: "'c Motion \<Rightarrow> rat \<Rightarrow> error + rat \<times> rat list" where
  "Motion_progress m t =
     (case (case m_delay m of
              Some d \<Rightarrow>
                if d \<noteq> 0 \<and> t \<ge> d then
                  (if m_repeat m then
                     (case pymod d (period m) of Inl err \<Rightarrow> Inl err | Inr t' \<Rightarrow> Inr (t', []))
                   else Inr (d, []))
                else if m_repeat m then
                  (case pymod t (period m) of Inl err \<Rightarrow> Inl err | Inr t' \<Rightarrow> Inr (t', [0]))
                else if t > period m then Inr (period m, [])
                else Inr (t, [0])
            | None \<Rightarrow>
                if m_repeat m then
                  (case pymod t (period m) of Inl err \<Rightarrow> Inl err | Inr t' \<Rightarrow> Inr (t', [0]))
                else if t > period m then Inr (period m, [])
                else Inr (t, [0])) of
        Inl err \<Rightarrow> Inl err
      | Inr (t1, redraws) \<Rightarrow>
          (case pydiv t1 (period m) of
             Inl err \<Rightarrow> Inl err
           | Inr t2 \<Rightarrow>
               Inr (if bounce m then (if t2 * 2 > 1 then 2 - t2 * 2 else t2 * 2) else t2,
                    redraws)))"

text \<open>What one call of \<open>Motion.render\<close> hands on: the value the function was
  sampled at, the redraws requested, and the size of the rendering.\<close>

record motion_frame =
  progress :: rat
  redraws :: "rat list"
  frame_size :: "int \<times> int"

text \<open>\<open>Motion.render\<close>. A result of the function that has neither two nor four
  components cannot be unpacked.\<close>

definition Motion_render ::
  "'c renderer \<Rightarrow> 'c Motion \<Rightarrow> int \<Rightarrow> int \<Rightarrow> rat \<Rightarrow> rat
   \<Rightarrow> (error + motion_frame) \<times> 'c Motion" where
  "Motion_render R m width height st at' =
     (case Motion_progress m (if m_anim_timebase m then at' else st) of
        Inl err \<Rightarrow> (Inl err, m)
      | Inr (t, rds) \<Rightarrow>
          (case (case func m t of
                   [x, y] \<Rightarrow> Inr (m\<lparr> xpos := Some x, ypos := Some y \<rparr>)
                 | [x, y, xa, ya] \<Rightarrow>
                     Inr (m\<lparr> xpos := Some x, ypos := Some y,
                             xanchor := Some xa, yanchor := Some ya \<rparr>)
                 | _ \<Rightarrow> Inl ValueError) of
             Inl err \<Rightarrow> (Inl err, m)
           | Inr m1 \<Rightarrow>
               (case render_size R (m_child m1) width height st at' of
                  Inl err \<Rightarrow> (Inl err, m1)
                | Inr sz \<Rightarrow>
                    (Inr \<lparr> progress = t, redraws = rds, frame_size = sz \<rparr>,
                     m1\<lparr> m_sizes := [sz], m_offsets := [(0, 0)] \<rparr>))))"

subsection \<open>Zoom\<close>

record 'c Zoom =
  z_size :: "int \<times> int"
  z_start :: "rat list"
  z_end :: "rat list"
  z_time :: rat
  z_child :: 'c
  after_child :: "'c option"

definition Zoom_init ::
  "int \<times> int \<Rightarrow> rat list \<Rightarrow> rat list \<Rightarrow> rat \<Rightarrow> 'c \<Rightarrow> 'c option \<Rightarrow> 'c Zoom" where
  "Zoom_init sz s e tm c ac =
     \<lparr> z_size = sz, z_start = s, z_end = e, z_time = tm, z_child = c, after_child = ac \<rparr>"

text \<open>The completion ratio: \<open>min(st / self.time, 1.0)\<close>, or 1.0 when the time is
  false.\<close>

definition zoom_done :: "'c Zoom \<Rightarrow> rat \<Rightarrow> rat" where
  "zoom_done z st = (if z_time z \<noteq> 0 then min (st / z_time z) 1 else 1)"

text \<open>What \<open>Zoom.render\<close> draws: the rendering of the after-child, or the child
  cropped to a rectangle and scaled, with the redraws requested.\<close>

datatype 'c zoom_frame = AfterChild 'c | Zoomed 'c "rat list" "rat list"

text \<open>\<open>Zoom.render\<close>. It reads the object and writes nothing to it.\<close>

definition Zoom_render :: "'c Zoom \<Rightarrow> rat \<Rightarrow> rat \<Rightarrow> 'c zoom_frame" where
  "Zoom_render z st at' =
     (let done = zoom_done z st in
      case (if done = 1 then after_child z else None) of
        Some a \<Rightarrow> AfterChild a
      | None \<Rightarrow>
          Zoomed (z_child z)
            (map (\<lambda>(a, b). (1 - done) * a + done * b) (zip (z_start z) (z_end z)))
            (if done < 1 then [0] else []))"

section \<open>ui.py: the stack of current widgets\<close>

text \<open>
  The module state: the current widget or layer, the stack of those opened before it,
  and the flag \<open>current_once\<close>. What \<open>add\<close> does to the widget tree (a call of
  \<open>current.add(w)\<close> or of the scene lists) is recorded in \<open>added\<close>, a list of pairs of
  parent and child. \<open>'w\<close> is the type of widgets.
\<close>

datatype 'w target = Layer string | Widget 'w

record 'w ui =
  current :: "'w target"
  current_stack :: "'w target list"
  current_once :: bool
  added :: "('w target \<times> 'w) list"

definition ui_init :: "'w ui" where
  "ui_init = \<lparr> current = Layer ''transient'', current_stack = [], current_once = False,
               added = [] \<rparr>"

text \<open>A function of the module returns the exception it raised (if any) or its value,
  and the module state as the call leaves it.\<close>

text \<open>\<open>ui.close\<close>.\<close>

definition close :: "'w ui \<Rightarrow> error option \<times> 'w ui" where
  "close s =
     (if current_stack s = [] then
        (Some (Exception ''ui.close() called to close the last open layer or widget.''), s)
      else if current_once s then
        (Some (Exception ''ui.close() called when expecting a widget.''), s)
      else
        (None, s\<lparr> current := last (current_stack s),
                  current_stack := butlast (current_stack s) \<rparr>))"

text \<open>\<open>ui.add\<close>.\<close>

definition add :: "'w \<Rightarrow> bool \<Rightarrow> bool \<Rightarrow> 'w ui \<Rightarrow> (error + 'w) \<times> 'w ui" where
  "add w make_current once s =
     (let s1 = s\<lparr> added := added s @ [(current s, w)] \<rparr> in
      case (if current_once s1 then close (s1\<lparr> current_once := False \<rparr>) else (None, s1)) of
        (Some err, s2) \<Rightarrow> (Inl err, s2)
      | (None, s2) \<Rightarrow>
          (let s3 = s2\<lparr> current_once := once \<rparr> in
           (Inr w,
            if make_current
            then s3\<lparr> current_stack := current_stack s3 @ [current s3], current := Widget w \<rparr>
            else s3)))"

text \<open>\<open>ui.layer\<close>; the known layers of the configuration are a parameter.\<close>

definition layer :: "string list \<Rightarrow> string \<Rightarrow> 'w ui \<Rightarrow> error option \<times> 'w ui" where
  "layer known n s =
     (case current s of
        Widget _ \<Rightarrow>
          (Some (Exception ''Opening a layer while a widget is open is not allowed.''), s)
      | Layer _ \<Rightarrow>
          if n \<notin> set known then (Some (Exception (CHR 0x27 # n @ CHR 0x27 # '' is not a known layer.'')), s)
          else (None, s\<lparr> current_stack := current_stack s @ [current s],
                         current_once := False, current := Layer n \<rparr>))"

text \<open>\<open>ui.reopen\<close>; clearing the children of the widget does not touch the module
  state.\<close>

definition reopen :: "'w \<Rightarrow> bool \<Rightarrow> 'w ui \<Rightarrow> 'w ui" where
  "reopen w clear s = s\<lparr> current_stack := current_stack s @ [current s], current := Widget w \<rparr>"

section \<open>Example inputs\<close>

text \<open>The two-state machine of the specification: two edges from \<open>A\<close> to \<open>B\<close>,
  of weights 1 and 3.\<close>

definition sA :: "(nat, unit, unit) State" where "sA = State_init ''A'' (Some 0) [] []"
definition sB :: "(nat, unit, unit) State" where "sB = State_init ''B'' (Some 1) [] []"
definition eA1 :: "unit Edge" where "eA1 = Edge_init ''A'' 1 ''B'' None 1"
definition eA3 :: "unit Edge" where "eA3 = Edge_init ''A'' 1 ''B'' None 3"

text \<open>The same machine with an edge back from \<open>B\<close> to \<open>A\<close>, and its state after a
  first \<open>render\<close> at time 0 that drew the edge of weight 1. The times of the examples
  are small integers and halves, on which float arithmetic is exact: \<open>exact\<close>.\<close>

definition eB2 :: "unit Edge" where "eB2 = Edge_init ''B'' 2 ''A'' None 1"

definition machine :: "(nat, unit, unit, unit) SMAnimation" where
  "machine = SMAnimation_init ''A'' [AState sA, AState sB, AEdge eA1, AEdge eA3, AEdge eB2]
               None None None []"

definition exact :: "rat \<Rightarrow> rat" where
  "exact x = x"

definition machine_running :: "(nat, unit, unit, unit) SMAnimation" where
  "machine_running =
     machine\<lparr> edge_start := Some 0, edge_cache := Some (Plain (Picture (Some 1) [])),
              edge := Some eA1, state := Some ''B'' \<rparr>"


text \<open>A machine for use as a motion: the images of its states are left unset.\<close>

definition motion_machine :: "(nat, unit, unit, unit) SMAnimation" where
  "motion_machine =
     SMAnimation_init ''A''
       [AState (State_init ''A'' None [] []), AState (State_init ''B'' None [] []),
        AEdge eA1, AEdge eA3] None None None []"


text \<open>A renderer that gives every child the size 10 by 20 and places it where it is
  asked to; a transposing grid of 3 columns and 2 rows, once full and once with a cell
  missing.\<close>

definition plain_renderer :: "nat renderer" where
  "plain_renderer = \<lparr> render = (\<lambda>c w h st at'. Some (10, 20)), place = (\<lambda>c x y w h sz. (x, y)) \<rparr>"

definition grid6 :: "nat Grid" where
  "grid6 = fold Container_add (map Some [0, 1, 2, 3, 4, 5]) (Grid_init 3 2 0 True False False)"

definition grid5 :: "nat Grid" where
  "grid5 = fold Container_add (map Some [0, 1, 2, 3, 4]) (Grid_init 3 2 0 True False False)"


text \<open>A motion of period and delay 2 that neither repeats nor bounces, on the shown
  time base; a zoom of duration 2 with an after-child; the state of the ui module after
  \<open>ui.window()\<close> on a fresh module.\<close>

definition slide :: "rat \<Rightarrow> rat list" where
  "slide t = [100 * t, 0]"

definition motion2 :: "nat Motion" where
  "motion2 = Motion_init slide 2 (Some 1) None False False (Some 2) False"

definition zoom2 :: "nat Zoom" where
  "zoom2 = Zoom_init (800, 600) [0, 0, 800, 600] [200, 150, 400, 300] 2 1 (Some 2)"

definition ui_window_open :: "nat ui" where
  "ui_window_open = \<lparr> current = Widget 1, current_stack = [Layer ''transient''],
                       current_once = True, added = [(Layer ''transient'', 1)] \<rparr>"


text \<open>What calling the motion machine with the child 7 returns.\<close>

definition motion_clone :: "(nat, unit, unit, unit) SMAnimation" where
  "motion_clone =
     \<lparr> sm_delay = None, showold = False, anim_timebase = True, sm_properties = [],
       initial = ''A'',
       states = [(''A'', State_init ''A'' (Some 7) [] []), (''B'', State_init ''B'' (Some 7) [] [])],
       edges = [(''A'', eA1 # replicate 9 eA3)],
       edge_start = None, edge_cache = None, edge = None, state = None \<rparr>"

section \<open>Properties of anim.py\<close>

subsection \<open>The catch-up loop of the state machine\<close>

lemma pick_edge_keeps:
  assumes "pick_edge r st sma = Inr sma'"
  shows "edge_start sma' = edge_start sma" and "edges sma' = edges sma"
    and "edge sma' = None \<or> (\<exists>e\<in>set (adjacency sma st). edge sma' = Some e)"
  using assms
  by (auto simp add: pick_edge_def random_choice_def adjacency_def
      split: option.splits if_splits)

lemma catch_up_completes:
  assumes "catch_up rnd rs t sma k = Some y"
  shows "\<forall>sma' k'. y = Inr (sma', k') \<longrightarrow>
           (\<exists>finished. completes rnd rs t sma k finished sma' k' \<and> settled rnd t sma')"
  using assms
proof (induction rnd rs t sma k y rule: catch_up.raw_induct [rotated 1, consumes 1])
  case (1 catch_up rnd rs t sma k y)
  show ?case
  proof (cases "edge sma")
    case None
    with 1(2) show ?thesis
      by (auto simp add: settled_def intro: completes_none)
  next
    case (Some e)
    note e = this
    show ?thesis
    proof (cases "edge_start sma")
      case None
      with 1(2) e show ?thesis by auto
    next
      case (Some es)
      note es = this
      show ?thesis
      proof (cases "fadd rnd es (e_delay e) < t")
        case False
        with 1(2) e es show ?thesis
          by (auto simp add: settled_def intro: completes_none)
      next
        case True
        show ?thesis
        proof (cases "pick_edge (rs k) (new e)
                  (sma\<lparr> edge_start := Some (fadd rnd es (e_delay e)), edge_cache := None \<rparr>)")
          case (Inl err)
          with 1(2) e es True show ?thesis by auto
        next
          case (Inr sma1)
          with 1(2) e es True have "catch_up rnd rs t sma1 (Suc k) = Some y" by simp
          from 1(1) [OF this] show ?thesis
            using completes_edge [of sma e es rnd t rs k sma1, OF e es True Inr] by blast
        qed
      qed
    qed
  qed
qed

lemma completes_edge_start:
  assumes "completes rnd rs t sma k finished sma' k'"
  shows "k' = k + length finished \<and> edges sma' = edges sma \<and>
         (\<forall>es0. edge_start sma = Some es0 \<longrightarrow>
            edge_start sma' = Some (advanced rnd es0 (map e_delay finished)))"
  using assms
proof (induction rule: completes.induct)
  case (completes_none sma k)
  show ?case by (simp add: advanced_def)
next
  case (completes_edge sma e es k sma' finished sma'' k'')
  from pick_edge_keeps [OF completes_edge(4)]
  have "edge_start sma' = Some (fadd rnd es (e_delay e))" and "edges sma' = edges sma"
    by simp_all
  with completes_edge(2,6) show ?case by (simp add: advanced_def)
qed

lemma advanced_exact:
  "(\<forall>x. rnd x = x) \<Longrightarrow> advanced rnd a ds = a + sum_list ds"
  unfolding advanced_def
  by (induction ds arbitrary: a) (simp_all add: fadd_def add.assoc)

lemma adjacency_in_graph:
  "e \<in> set (adjacency sma st) \<Longrightarrow> \<exists>l\<in>snd ` set (edges sma). e \<in> set l"
  by (cases "map_of (edges sma) st") (auto simp add: adjacency_def dest!: map_of_SomeD intro: rev_bexI)

lemma catch_up_returns:
  assumes d: "0 < d"
    and graph: "\<forall>es\<in>snd ` set (edges sma). \<forall>e\<in>set es. gains rnd d lo t e"
    and cur: "\<forall>e. edge sma = Some e \<longrightarrow> gains rnd d lo t e"
    and start: "\<forall>es. edge_start sma = Some es \<longrightarrow> lo \<le> es \<and> es \<le> t"
  shows "\<exists>y. catch_up rnd rs t sma k = Some y"
proof -
  define m where "m = (case edge_start sma of None \<Rightarrow> 0 | Some es \<Rightarrow> nat \<lceil>(t - es) / d\<rceil>)"
  from m_def graph cur start show ?thesis
  proof (induction m arbitrary: sma k rule: less_induct)
    case (less m)
    show ?case
    proof (cases "edge sma")
      case None
      then show ?thesis by (subst catch_up.simps) simp
    next
      case (Some e)
      note e = this
      show ?thesis
      proof (cases "edge_start sma")
        case None
        with e show ?thesis by (subst catch_up.simps) simp
      next
        case (Some es)
        note es = this
        show ?thesis
        proof (cases "fadd rnd es (e_delay e) < t")
          case False
          with e es show ?thesis by (subst catch_up.simps) simp
        next
          case True
          let ?es' = "fadd rnd es (e_delay e)"
          let ?s = "sma\<lparr> edge_start := Some ?es', edge_cache := None \<rparr>"
          show ?thesis
          proof (cases "pick_edge (rs k) (new e) ?s")
            case (Inl err)
            with e es True show ?thesis by (subst catch_up.simps) simp
          next
            case (Inr sma1)
            from pick_edge_keeps [OF Inr]
            have k1: "edge_start sma1 = Some ?es'" and k2: "edges sma1 = edges sma"
              and k3: "edge sma1 = None \<or> (\<exists>e'\<in>set (adjacency ?s (new e)). edge sma1 = Some e')"
              by simp_all
            have b: "lo \<le> es" "es \<le> t" using less.prems(4) es by simp_all
            have "gains rnd d lo t e" using less.prems(3) e by simp
            with b have g: "es + d \<le> ?es'" by (simp add: gains_def)
            then have "(t - ?es') / d \<le> (t - es - d) / d"
              using d by (intro divide_right_mono) simp_all
            also have "(t - es - d) / d = (t - es) / d - 1"
              using d by (simp add: diff_divide_distrib)
            finally have "(t - ?es') / d \<le> (t - es) / d - 1" .
            then have "\<lceil>(t - ?es') / d\<rceil> \<le> \<lceil>(t - es) / d\<rceil> - 1"
              by (metis ceiling_mono ceiling_diff_one)
            moreover have "0 < t - es" using d g True by simp
            then have "0 < (t - es) / d" using d by simp
            then have "0 < \<lceil>(t - es) / d\<rceil>" by simp
            ultimately have lt: "nat \<lceil>(t - ?es') / d\<rceil> < m"
              using less.prems(1) es by simp
            have g1: "\<forall>es\<in>snd ` set (edges sma1). \<forall>e\<in>set es. gains rnd d lo t e"
              using less.prems(2) k2 by simp
            have g2: "\<forall>e'. edge sma1 = Some e' \<longrightarrow> gains rnd d lo t e'"
            proof (intro allI impI)
              fix e' assume "edge sma1 = Some e'"
              with k3 have "e' \<in> set (adjacency ?s (new e))" by auto
              then have "e' \<in> set (adjacency sma (new e))" by (simp add: adjacency_def)
              from adjacency_in_graph [OF this] less.prems(2)
              show "gains rnd d lo t e'" by blast
            qed
            have g3: "\<forall>es. edge_start sma1 = Some es \<longrightarrow> lo \<le> es \<and> es \<le> t"
              using k1 g b d True by simp
            have "\<exists>y. catch_up rnd rs t sma1 (Suc k) = Some y"
              by (rule less.IH [OF lt _ g1 g2 g3]) (simp add: k1)
            with e es True Inr show ?thesis by (subst catch_up.simps) simp
          qed
        qed
      qed
    qed
  qed
qed

lemma render_start_origin:
  assumes "render_start rs t sma k = Inr (sma1, k1)"
  shows "edge_start sma1 = Some (render_origin t sma)" and "edges sma1 = edges sma"
    and "edge sma1 = edge sma \<or> edge sma1 = None
         \<or> (\<exists>e\<in>set (adjacency sma (initial sma)). edge sma1 = Some e)"
proof -
  let ?reset = "(case edge_start sma of None \<Rightarrow> True | Some es \<Rightarrow> t < es)"
  let ?s = "sma\<lparr> edge_start := Some t, edge_cache := None \<rparr>"
  have "edge_start sma1 = Some (render_origin t sma) \<and> edges sma1 = edges sma
        \<and> (edge sma1 = edge sma \<or> edge sma1 = None
         \<or> (\<exists>e\<in>set (adjacency sma (initial sma)). edge sma1 = Some e))"
  proof (cases ?reset)
    case True
    with assms have p: "pick_edge (rs k) (initial sma) ?s = Inr sma1"
      by (simp add: render_start_def split: sum.splits)
    have o: "render_origin t sma = t"
      using True by (simp add: render_origin_def split: option.splits)
    have a: "adjacency ?s (initial sma) = adjacency sma (initial sma)"
      by (simp add: adjacency_def)
    from pick_edge_keeps [OF p] show ?thesis
      by (simp add: o a)
  next
    case False
    with assms have "sma1 = sma" by (simp add: render_start_def)
    with False show ?thesis
      by (simp add: render_origin_def split: option.splits)
  qed
  then show "edge_start sma1 = Some (render_origin t sma)" and "edges sma1 = edges sma"
    and "edge sma1 = edge sma \<or> edge sma1 = None
         \<or> (\<exists>e\<in>set (adjacency sma (initial sma)). edge sma1 = Some e)"
    by simp_all
qed

lemma render_origin_le: "render_origin t sma \<le> t"
  by (simp add: render_origin_def split: option.splits)

lemma update_cache_keeps:
  "update_cache e sma = Inr sma' \<Longrightarrow> edge_start sma' = edge_start sma \<and> edge sma' = edge sma"
  by (auto simp add: update_cache_def split: option.splits if_splits sum.splits)

lemma render_frame_keeps:
  assumes "render_frame rnd st t sma = Inr (fr, sma')"
  shows "edge_start sma' = edge_start sma" and "edge sma' = edge sma"
  using assms
  by (auto simp add: render_frame_def dest!: update_cache_keeps split: option.splits sum.splits)

lemma settled_cong:
  "edge_start sma' = edge_start sma \<Longrightarrow> edge sma' = edge sma \<Longrightarrow>
     settled rnd t sma' = settled rnd t sma"
  by (simp add: settled_def split: option.splits)


text \<open>The example state \<open>machine_running\<close> is what the first \<open>render\<close> of the
  example machine at time 0 leaves.\<close>

lemma machine_first_render:
  "SMAnimation_render exact (\<lambda>_. 0) 0 0 machine 0
     = Some (Inr (\<lparr> shown = Plain (Picture (Some 1) []), shown_at = 0, redraw = Some 1 \<rparr>,
                  machine_running, 1))"
  by code_simp

text \<open>A state that was built with keyword properties has no image: \<open>get_image\<close>
  raises, and so does every \<open>render\<close> that has to draw the state.\<close>

lemma get_image_properties:
  "st_properties s \<noteq> [] \<Longrightarrow> get_image s = Inl (NameError ''properties'')"
  by (simp add: get_image_def)

text \<open>
  Claim C2, as amended: the comparison is strict, and the sums are the sums the code
  computes. A \<open>render\<close> call that returns has completed a sequence of edges, each at a
  moment when the time of the chosen time base was strictly greater than the edge's
  start plus its delay; each completion set the edge start to that sum (the start plus
  the delay of the edge, never the current time) and picked the next edge from the
  state the edge leads to. Afterwards the edge start is the time the delays are counted
  from with the delays of the completed edges added to it one after the other, each
  addition rounded as the arithmetic rounds it; where the arithmetic is exact this is
  the time plus the sum of the delays. The current edge (if any) is then not strictly
  overdue. The call returns whenever completing an edge moves the edge start forward by
  at least some positive \<open>d\<close>, for every edge of the machine and every start between
  the time the delays are counted from and the current time. All this holds for every
  rounding \<open>rnd\<close>.
\<close>

theorem SMAnimation_render_accumulates_delays:
  "(\<forall>fr sma' k'.
      SMAnimation_render rnd rs st at' sma k = Some (Inr (fr, sma', k')) \<longrightarrow>
      (\<exists>sma1 k1 finished sma2.
         render_start rs (if anim_timebase sma then at' else st) sma k = Inr (sma1, k1) \<and>
         completes rnd rs (if anim_timebase sma then at' else st) sma1 k1 finished sma2 k' \<and>
         edge sma' = edge sma2 \<and>
         edge_start sma' =
           Some (advanced rnd (render_origin (if anim_timebase sma then at' else st) sma)
                   (map e_delay finished)) \<and>
         ((\<forall>x. rnd x = x) \<longrightarrow>
            edge_start sma' =
              Some (render_origin (if anim_timebase sma then at' else st) sma
                    + sum_list (map e_delay finished))) \<and>
         settled rnd (if anim_timebase sma then at' else st) sma'))
   \<and> (\<forall>d. 0 < d
          \<and> (\<forall>es\<in>snd ` set (edges sma). \<forall>e\<in>set es.
                gains rnd d (render_origin (if anim_timebase sma then at' else st) sma)
                  (if anim_timebase sma then at' else st) e)
          \<and> (\<forall>e. edge sma = Some e \<longrightarrow>
                gains rnd d (render_origin (if anim_timebase sma then at' else st) sma)
                  (if anim_timebase sma then at' else st) e)
          \<longrightarrow> SMAnimation_render rnd rs st at' sma k \<noteq> None)"
proof (intro conjI allI impI)
  fix fr sma' k'
  define t where "t = (if anim_timebase sma then at' else st)"
  assume r: "SMAnimation_render rnd rs st at' sma k = Some (Inr (fr, sma', k'))"
  then obtain sma1 k1 sma2 where
    s: "render_start rs t sma k = Inr (sma1, k1)"
    and c: "catch_up rnd rs t sma1 k1 = Some (Inr (sma2, k'))"
    and f: "render_frame rnd st t sma2 = Inr (fr, sma')"
    by (auto simp add: SMAnimation_render_def t_def Let_def
        split: sum.splits option.splits prod.splits)
  from catch_up_completes [OF c] obtain finished where
    p: "completes rnd rs t sma1 k1 finished sma2 k'" and q: "settled rnd t sma2"
    by blast
  from completes_edge_start [OF p] render_start_origin(1) [OF s]
  have a: "edge_start sma2 = Some (advanced rnd (render_origin t sma) (map e_delay finished))"
    by simp
  have x: "(\<forall>x. rnd x = x) \<longrightarrow>
      edge_start sma2 = Some (render_origin t sma + sum_list (map e_delay finished))"
    using a by (simp add: advanced_exact)
  from a x render_frame_keeps [OF f] settled_cong [of sma' sma2 rnd t] q s p
  show "\<exists>sma1 k1 finished sma2.
         render_start rs (if anim_timebase sma then at' else st) sma k = Inr (sma1, k1) \<and>
         completes rnd rs (if anim_timebase sma then at' else st) sma1 k1 finished sma2 k' \<and>
         edge sma' = edge sma2 \<and>
         edge_start sma' =
           Some (advanced rnd (render_origin (if anim_timebase sma then at' else st) sma)
                   (map e_delay finished)) \<and>
         ((\<forall>x. rnd x = x) \<longrightarrow>
            edge_start sma' =
              Some (render_origin (if anim_timebase sma then at' else st) sma
                    + sum_list (map e_delay finished))) \<and>
         settled rnd (if anim_timebase sma then at' else st) sma'"
    unfolding t_def [symmetric]
    by (intro exI [of _ sma1] exI [of _ k1] exI [of _ finished] exI [of _ sma2]) simp
next
  fix d
  define t where "t = (if anim_timebase sma then at' else st)"
  assume a: "0 < d
          \<and> (\<forall>es\<in>snd ` set (edges sma). \<forall>e\<in>set es.
                gains rnd d (render_origin (if anim_timebase sma then at' else st) sma)
                  (if anim_timebase sma then at' else st) e)
          \<and> (\<forall>e. edge sma = Some e \<longrightarrow>
                gains rnd d (render_origin (if anim_timebase sma then at' else st) sma)
                  (if anim_timebase sma then at' else st) e)"
  then have d: "0 < d"
    and g: "\<forall>es\<in>snd ` set (edges sma). \<forall>e\<in>set es. gains rnd d (render_origin t sma) t e"
    and c: "\<forall>e. edge sma = Some e \<longrightarrow> gains rnd d (render_origin t sma) t e"
    unfolding t_def by blast+
  show "SMAnimation_render rnd rs st at' sma k \<noteq> None"
  proof (cases "render_start rs t sma k")
    case (Inl err)
    then show ?thesis by (simp add: SMAnimation_render_def t_def)
  next
    case (Inr p)
    obtain sma1 k1 where p: "p = (sma1, k1)" by (cases p)
    note s = Inr [unfolded p]
    from render_start_origin(2) [OF s] g
    have g1: "\<forall>es\<in>snd ` set (edges sma1). \<forall>e\<in>set es. gains rnd d (render_origin t sma) t e"
      by simp
    have c1: "\<forall>e. edge sma1 = Some e \<longrightarrow> gains rnd d (render_origin t sma) t e"
      using render_start_origin(3) [OF s] c g adjacency_in_graph [of _ sma "initial sma"]
      by fastforce
    have b1: "\<forall>es. edge_start sma1 = Some es \<longrightarrow> render_origin t sma \<le> es \<and> es \<le> t"
      using render_start_origin(1) [OF s] render_origin_le [of t sma] by simp
    from catch_up_returns [OF d g1 c1 b1]
    obtain y where "catch_up rnd rs t sma1 k1 = Some y" by blast
    with s show ?thesis
      by (simp add: SMAnimation_render_def t_def [symmetric] split: sum.splits prod.splits)
  qed
qed

theorem SMAnimation_render_accumulates_delays_witness:
  "SMAnimation_render exact (\<lambda>_. 0) 0 (7 / 2) machine_running 1
     = Some (Inr (\<lparr> shown = Plain (Picture (Some 1) []), shown_at = 1 / 2,
                    redraw = Some (1 / 2) \<rparr>,
                  machine_running\<lparr> edge_start := Some 3 \<rparr>, 3))
   \<and> (\<exists>sma1 k1 finished sma2.
         render_start (\<lambda>_. 0) (7 / 2) machine_running 1 = Inr (sma1, k1) \<and>
         completes exact (\<lambda>_. 0) (7 / 2) sma1 k1 finished sma2 3 \<and>
         edge (machine_running\<lparr> edge_start := Some 3 \<rparr>) = edge sma2 \<and>
         edge_start (machine_running\<lparr> edge_start := Some 3 \<rparr>)
           = Some (advanced exact (render_origin (7 / 2) machine_running) (map e_delay finished)) \<and>
         edge_start (machine_running\<lparr> edge_start := Some 3 \<rparr>)
           = Some (render_origin (7 / 2) machine_running + sum_list (map e_delay finished)) \<and>
         settled exact (7 / 2) (machine_running\<lparr> edge_start := Some 3 \<rparr>))
   \<and> SMAnimation_render exact (\<lambda>_. 0) 0 (7 / 2) machine_running 1 \<noteq> None"
proof -
  have r: "SMAnimation_render exact (\<lambda>_. 0) 0 (7 / 2) machine_running 1
     = Some (Inr (\<lparr> shown = Plain (Picture (Some 1) []), shown_at = 1 / 2,
                    redraw = Some (1 / 2) \<rparr>,
                  machine_running\<lparr> edge_start := Some 3 \<rparr>, 3))"
    by code_simp
  have b: "anim_timebase machine_running = True"
    by code_simp
  have x: "\<forall>x. exact x = x" by (simp add: exact_def)
  have g: "gains exact 1 lo hi e" if "1 \<le> e_delay e" for lo hi and e :: "unit Edge"
    using that by (simp add: gains_def fadd_def exact_def)
  have l: "\<forall>es\<in>snd ` set (edges machine_running). \<forall>e\<in>set es. 1 \<le> e_delay e"
    by code_simp
  have d: "(0::rat) < 1
          \<and> (\<forall>es\<in>snd ` set (edges machine_running). \<forall>e\<in>set es.
                gains exact 1 (render_origin (7 / 2) machine_running) (7 / 2) e)
          \<and> (\<forall>e. edge machine_running = Some e \<longrightarrow>
                gains exact 1 (render_origin (7 / 2) machine_running) (7 / 2) e)"
  proof (intro conjI)
    show "\<forall>es\<in>snd ` set (edges machine_running). \<forall>e\<in>set es.
                gains exact 1 (render_origin (7 / 2) machine_running) (7 / 2) e"
      using l g by blast
    show "\<forall>e. edge machine_running = Some e \<longrightarrow>
                gains exact 1 (render_origin (7 / 2) machine_running) (7 / 2) e"
      by (auto intro!: g simp add: machine_running_def eA1_def Edge_init_def)
  qed simp
  note inst = SMAnimation_render_accumulates_delays
    [of exact "\<lambda>_. 0" 0 "7 / 2" machine_running 1, unfolded b if_True]
  from inst [THEN conjunct1, rule_format, OF r] x inst [THEN conjunct2, rule_format, OF d] r
  show ?thesis by blast
qed

text \<open>
  The claim as stated fails on the boundary: the current edge started at 0 and has
  delay 1, the time is 1 (so the delay has expired in the sense of \<open>\<ge>\<close>), and
  \<open>render\<close> leaves the edge and its start as they are. The numbers 0 and 1 and their
  sums and differences are floats, so no rounding takes place.
\<close>

theorem SMAnimation_render_boundary_counterexample:
  "edge machine_running = Some eA1
   \<and> edge_start machine_running = Some 0
   \<and> 0 + e_delay eA1 \<le> (1::rat)
   \<and> SMAnimation_render exact (\<lambda>_. 0) 0 1 machine_running 1
       = Some (Inr (\<lparr> shown = Plain (Picture (Some 1) []), shown_at = 1, redraw = Some 0 \<rparr>,
                    machine_running, 1))"
  by code_simp

text \<open>The same holds under every rounding that leaves 0 and 1 as they are, whatever
  the draws and the shown time.\<close>

lemma machine_running_fields:
  "edge machine_running = Some eA1" "edge_start machine_running = Some 0"
  "edge_cache machine_running = Some (Plain (Picture (Some 1) []))"
  "anim_timebase machine_running" "e_delay eA1 = 1"
  by code_simp+

lemma boundary_for_every_rounding:
  assumes "rnd 0 = 0" and "rnd 1 = 1"
  shows "SMAnimation_render rnd rs st 1 machine_running k
       = Some (Inr (\<lparr> shown = Plain (Picture (Some 1) []), shown_at = 1, redraw = Some 0 \<rparr>,
                    machine_running, k))"
proof -
  have s: "render_start rs 1 machine_running k = Inr (machine_running, k)"
    by (simp add: render_start_def machine_running_fields)
  have c: "catch_up rnd rs 1 machine_running k = Some (Inr (machine_running, k))"
    by (subst catch_up.simps) (simp add: machine_running_fields fadd_def assms)
  have f: "render_frame rnd st 1 machine_running
       = Inr (\<lparr> shown = Plain (Picture (Some 1) []), shown_at = 1, redraw = Some 0 \<rparr>,
              machine_running)"
    by (simp add: render_frame_def machine_running_fields fsub_def assms)
  show ?thesis
    by (simp add: SMAnimation_render_def machine_running_fields s c f)
qed


subsection \<open>Weighted edges\<close>

lemma map_of_setdefault_append:
  "map_of (setdefault_append d k v) k' =
     (if k' = k then Some ((case map_of d k of None \<Rightarrow> [] | Some vs \<Rightarrow> vs) @ [v]) else map_of d k')"
  by (simp add: setdefault_append_def update_conv')

lemma adjacency_append_once:
  "adjacency (s\<lparr> edges := setdefault_append (edges s) k e \<rparr>) st
     = adjacency s st @ (if st = k then [e] else [])"
  by (simp add: adjacency_def map_of_setdefault_append)

lemma adjacency_fold_append:
  "adjacency (fold (\<lambda>i s. s\<lparr> edges := setdefault_append (edges s) k e \<rparr>) is s) st
     = adjacency s st @ (if st = k then replicate (length is) e else [])"
proof (induction "is" arbitrary: s)
  case Nil
  then show ?case by simp
next
  case (Cons i "is")
  show ?case
    by (simp add: Cons.IH adjacency_append_once replicate_app_Cons_same)
qed

lemma adjacency_Edge_add:
  "adjacency (Edge_add e sma) st
     = adjacency sma st @ (if old e = st then replicate (nat (prob e)) e else [])"
  by (auto simp add: Edge_add_def adjacency_fold_append)

lemma adjacency_State_add: "adjacency (State_add s sma) st = adjacency sma st"
  by (simp add: State_add_def adjacency_def)

lemma adjacency_arg_add: "adjacency (arg_add a sma) st = adjacency sma st @ replicas st a"
  by (cases a) (simp_all add: adjacency_Edge_add adjacency_State_add)

lemma adjacency_fold_arg_add:
  "adjacency (fold arg_add args sma) st = adjacency sma st @ concat (map (replicas st) args)"
  by (induction args arbitrary: sma) (simp_all add: adjacency_arg_add)

lemma adjacency_SMAnimation_init:
  "adjacency (SMAnimation_init ini args dk sk ak props) st = concat (map (replicas st) args)"
  by (simp add: SMAnimation_init_def adjacency_fold_arg_add) (simp add: adjacency_def)


lemma count_list_replicate_eq:
  "count_list (replicate n x) y = (if x = y then n else 0)"
  by (induction n) auto

lemma count_replicas:
  "count_list (replicas st a) e = (if a = AEdge e \<and> old e = st then nat (prob e) else 0)"
  by (cases a) (auto simp add: count_list_replicate_eq)

lemma count_list_concat_map:
  "count_list (concat (map f xs)) y = (\<Sum>x\<leftarrow>xs. count_list (f x) y)"
  by (induction xs) simp_all

lemma sum_list_indicator:
  "(\<Sum>x\<leftarrow>xs. if x = a then (n::nat) else 0) = count_list xs a * n"
  by (induction xs) simp_all

lemma count_adjacency:
  "count_list (concat (map (replicas (old e)) args)) e = count_list args (AEdge e) * nat (prob e)"
  by (simp add: count_list_concat_map count_replicas sum_list_indicator)

lemma length_replicas: "0 \<le> weight st a \<Longrightarrow> int (length (replicas st a)) = weight st a"
  by (cases a) auto

lemma length_adjacency:
  "\<forall>a\<in>set args. 0 \<le> weight st a \<Longrightarrow>
   int (length (concat (map (replicas st) args))) = (\<Sum>a\<leftarrow>args. weight st a)"
  by (induction args) (simp_all add: length_replicas)

lemma card_positions: "card {i. i < length xs \<and> xs ! i = x} = count_list xs x"
  by (simp add: count_list_eq_length_filter length_filter_conv_card) (metis)


lemma pick_edge_selects:
  "(\<exists>s'. pick_edge r st sma = Inr s' \<and> edge s' = Some e)
     \<longleftrightarrow> adjacency sma st \<noteq> [] \<and> adjacency sma st ! (r mod length (adjacency sma st)) = e"
  by (auto simp add: pick_edge_def adjacency_def random_choice_def split: option.splits)

lemma card_selecting_draws:
  "card {r. r < length (adjacency sma st) \<and> (\<exists>s'. pick_edge r st sma = Inr s' \<and> edge s' = Some e)}
     = count_list (adjacency sma st) e"
proof -
  have "{r. r < length (adjacency sma st) \<and> (\<exists>s'. pick_edge r st sma = Inr s' \<and> edge s' = Some e)}
      = {i. i < length (adjacency sma st) \<and> adjacency sma st ! i = e}"
    by (auto simp add: pick_edge_selects)
  then show ?thesis by (simp add: card_positions)
qed


lemma length_adjacency_nat:
  "length (concat (map (replicas st) args)) = (\<Sum>a\<leftarrow>args. nat (weight st a))"
proof (induction args)
  case Nil
  show ?case by simp
next
  case (Cons a args)
  have "length (replicas st a) = nat (weight st a)" by (cases a) simp_all
  with Cons show ?case by simp
qed

text \<open>What \<open>Edge.add\<close> and the constructor do with a weight: each call of \<open>add\<close>
  appends the edge \<open>prob\<close> times (not at all for a negative \<open>prob\<close>), so an edge that
  the constructor receives \<open>n\<close> times has \<open>n\<close> times its weight in entries, and
  \<open>pick_edge\<close> selects it in as many of the equally likely draws. For an edge received
  once, among weights that are not negative, this is the weight out of the sum of the
  weights.\<close>

lemma Edge_add_replicates_per_call:
  "adjacency (Edge_add e s0) (old e) = adjacency s0 (old e) @ replicate (nat (prob e)) e
   \<and> (let sma = SMAnimation_init ini args dk sk ak props;
           adj = adjacency sma (old e)
       in count_list adj e = count_list args (AEdge e) * nat (prob e)
        \<and> length adj = (\<Sum>a\<leftarrow>args. nat (weight (old e) a))
        \<and> card {r. r < length adj \<and>
                 (\<exists>s'. pick_edge r (old e) sma = Inr s' \<and> edge s' = Some e)}
            = count_list adj e
        \<and> (count_list args (AEdge e) = 1 \<and> (\<forall>a\<in>set args. 0 \<le> weight (old e) a) \<longrightarrow>
              int (count_list adj e) = prob e
            \<and> int (length adj) = (\<Sum>a\<leftarrow>args. weight (old e) a)
            \<and> int (card {r. r < length adj \<and>
                     (\<exists>s'. pick_edge r (old e) sma = Inr s' \<and> edge s' = Some e)}) = prob e))"
proof -
  let ?sma = "SMAnimation_init ini args dk sk ak props"
  let ?adj = "concat (map (replicas (old e)) args)"
  have a: "adjacency ?sma (old e) = ?adj"
    by (rule adjacency_SMAnimation_init)
  have c: "count_list ?adj e = count_list args (AEdge e) * nat (prob e)"
    by (rule count_adjacency)
  have l: "length ?adj = (\<Sum>a\<leftarrow>args. nat (weight (old e) a))"
    by (rule length_adjacency_nat)
  have k: "card {r. r < length (adjacency ?sma (old e)) \<and>
                 (\<exists>s'. pick_edge r (old e) ?sma = Inr s' \<and> edge s' = Some e)}
            = count_list (adjacency ?sma (old e)) e"
    by (rule card_selecting_draws)
  have s: "int (count_list ?adj e) = prob e \<and> int (length ?adj) = (\<Sum>a\<leftarrow>args. weight (old e) a)"
    if once: "count_list args (AEdge e) = 1" and nonneg: "\<forall>a\<in>set args. 0 \<le> weight (old e) a"
  proof -
    have "AEdge e \<in> set args"
      using once by (metis count_list_0_iff zero_neq_one)
    with nonneg have p: "0 \<le> prob e" by force
    with once c length_adjacency [OF nonneg] show ?thesis by simp
  qed
  have "adjacency (Edge_add e s0) (old e) = adjacency s0 (old e) @ replicate (nat (prob e)) e"
    by (simp add: adjacency_Edge_add)
  with c l k s show ?thesis
    unfolding Let_def a by simp
qed

text \<open>
  Claim C3 does not hold of every \<open>SMAnimation\<close> the code builds. Calling a machine
  (\<open>SMAnimation.__call__\<close>) hands every entry of every adjacency list to the
  constructor of the copy, where \<open>Edge.add\<close> appends the edge with its weight again:
  in the copy of the example machine the edge of weight 3 has 9 of the 10 entries of
  its state, not 3 of 4, so it is selected with probability 0.9 and not 0.75.
\<close>

theorem SMAnimation_call_replicates_again:
  "SMAnimation_call motion_machine (Some 7) None = Inr motion_clone
   \<and> old eA3 = ''A'' \<and> prob eA3 = 3
   \<and> count_list (adjacency motion_machine ''A'') eA3 = 3
   \<and> length (adjacency motion_machine ''A'') = 4
   \<and> count_list (adjacency motion_clone ''A'') eA3 = 9
   \<and> length (adjacency motion_clone ''A'') = 10"
  by code_simp

subsection \<open>Animation\<close>

lemma sort_args_lengths:
  "length (images (sort_args i args a))
     = length (images a) + (if even i then (length args + 1) div 2 else length args div 2)
   \<and> length (delays (sort_args i args a))
     = length (delays a) + (if even i then length args div 2 else (length args + 1) div 2)"
proof (induction args arbitrary: i a)
  case Nil
  show ?case by simp
next
  case (Cons x xs)
  show ?case by (simp add: Cons.IH even_iff_mod_2_eq_zero [symmetric])
qed

lemma Animation_init_odd:
  assumes "odd (length args)"
  shows "length (delays (Animation_init args tb)) = length (images (Animation_init args tb))"
    and "last (delays (Animation_init args tb)) = Num 31557600"
proof -
  let ?a = "sort_args 0 args
              \<lparr> a_anim_timebase = (case tb of None \<Rightarrow> True | Some b \<Rightarrow> b),
                images = [], delays = [] \<rparr>"
  from assms obtain n where n: "length args = 2 * n + 1"
    by (auto elim: oddE)
  have l: "length (images ?a) = n + 1" "length (delays ?a) = n"
    using sort_args_lengths [of 0 args] by (simp_all add: n)
  then have i: "Animation_init args tb = ?a\<lparr> delays := delays ?a @ [Num (36525 / 100 * 86400)] \<rparr>"
    by (simp add: Animation_init_def Let_def)
  show "length (delays (Animation_init args tb)) = length (images (Animation_init args tb))"
    unfolding i using l by simp
  show "last (delays (Animation_init args tb)) = Num 31557600"
    unfolding i by simp
qed

lemma pymod_range:
  assumes "0 < y"
  shows "\<exists>m. pymod x y = Inr m \<and> 0 \<le> m \<and> m < y \<and> m = x - y * of_int \<lfloor>x / y\<rfloor>"
proof -
  have "of_int \<lfloor>x / y\<rfloor> \<le> x / y"
    by (rule of_int_floor_le)
  then have a: "of_int \<lfloor>x / y\<rfloor> * y \<le> x"
    using assms by (simp only: pos_le_divide_eq)
  have "x / y < of_int \<lfloor>x / y\<rfloor> + 1"
    by linarith
  then have b: "x < (of_int \<lfloor>x / y\<rfloor> + 1) * y"
    using assms by (simp only: pos_divide_less_eq)
  from a b have "0 \<le> x - y * of_int \<lfloor>x / y\<rfloor>" and "x - y * of_int \<lfloor>x / y\<rfloor> < y"
    by (simp_all add: algebra_simps)
  then show ?thesis using assms by (simp add: pymod_def)
qed

lemma two_frames:
  "Animation_init [Img i1, Num 1, Img i2, Num 2] tb
     = \<lparr> a_anim_timebase = (case tb of None \<Rightarrow> True | Some b \<Rightarrow> b),
         images = [Img i1, Img i2], delays = [Num 1, Num 2] \<rparr>"
  by (simp add: Animation_init_def)

text \<open>
  Claim C5. For an \<open>Animation\<close> of the images \<open>i1\<close>, \<open>i2\<close> with the delays 1.0 and
  2.0, \<open>render\<close> takes the time of the chosen time base modulo the cycle length 3.0
  and scans the frames with running subtraction: at 0.5 it shows \<open>i1\<close>, at 1.5 it
  shows \<open>i2\<close>, at 3.5 it shows \<open>i1\<close> again, and in general it shows \<open>i1\<close> when the
  remainder is below 1 and \<open>i2\<close> otherwise. With an odd number of arguments the
  constructor gives the last image the finite delay 365.25 * 86400 = 31557600 seconds,
  so that every image has a delay.
\<close>

theorem Animation_render_frames:
  "Animation_render (Animation_init [Img i1, Num 1, Img i2, Num 2] tb) (1 / 2) (1 / 2)
      = Inr (Some (Img i1, 1 / 2))
   \<and> Animation_render (Animation_init [Img i1, Num 1, Img i2, Num 2] tb) (3 / 2) (3 / 2)
      = Inr (Some (Img i2, 3 / 2))
   \<and> Animation_render (Animation_init [Img i1, Num 1, Img i2, Num 2] tb) (7 / 2) (7 / 2)
      = Inr (Some (Img i1, 1 / 2))
   \<and> (\<forall>st at'. \<exists>m.
         pymod (if (case tb of None \<Rightarrow> True | Some b \<Rightarrow> b) then at' else st) 3 = Inr m \<and>
         Animation_render (Animation_init [Img i1, Num 1, Img i2, Num 2] tb) st at'
           = Inr (Some (if m < 1 then (Img i1, 1 - m) else (Img i2, 2 - (m - 1)))))
   \<and> (\<forall>args. odd (length args) \<longrightarrow>
         length (delays (Animation_init args tb)) = length (images (Animation_init args tb)) \<and>
         last (delays (Animation_init args tb)) = Num 31557600)"
proof (intro conjI allI impI)
  have "\<lfloor>1 / 6 :: rat\<rfloor> = 0" by (simp add: floor_eq_iff)
  then show "Animation_render (Animation_init [Img i1, Num 1, Img i2, Num 2] tb) (1 / 2) (1 / 2)
      = Inr (Some (Img i1, 1 / 2))"
    by (simp add: two_frames Animation_render_def pymod_def)
  have "\<lfloor>7 / 6 :: rat\<rfloor> = 1" by (simp add: floor_eq_iff)
  then show "Animation_render (Animation_init [Img i1, Num 1, Img i2, Num 2] tb) (7 / 2) (7 / 2)
      = Inr (Some (Img i1, 1 / 2))"
    by (simp add: two_frames Animation_render_def pymod_def)
  have "\<lfloor>1 / 2 :: rat\<rfloor> = 0" by (simp add: floor_eq_iff)
  then show "Animation_render (Animation_init [Img i1, Num 1, Img i2, Num 2] tb) (3 / 2) (3 / 2)
      = Inr (Some (Img i2, 3 / 2))"
    by (simp add: two_frames Animation_render_def pymod_def)
next
  fix st at' :: rat
  let ?t = "if (case tb of None \<Rightarrow> True | Some b \<Rightarrow> b) then at' else st"
  from pymod_range [of 3 ?t] obtain m where
    m: "pymod ?t 3 = Inr m" "0 \<le> m" "m < 3" by auto
  then have "Animation_render (Animation_init [Img i1, Num 1, Img i2, Num 2] tb) st at'
           = Inr (Some (if m < 1 then (Img i1, 1 - m) else (Img i2, 2 - (m - 1))))"
    by (simp add: two_frames Animation_render_def)
  with m(1) show "\<exists>m. pymod ?t 3 = Inr m \<and>
         Animation_render (Animation_init [Img i1, Num 1, Img i2, Num 2] tb) st at'
           = Inr (Some (if m < 1 then (Img i1, 1 - m) else (Img i2, 2 - (m - 1))))"
    by blast
next
  fix args :: "'b anim_arg list"
  assume "odd (length args)"
  then show "length (delays (Animation_init args tb)) = length (images (Animation_init args tb))"
    and "last (delays (Animation_init args tb)) = Num 31557600"
    by (rule Animation_init_odd)+
qed

theorem Animation_render_frames_witness:
  "odd (length [Img (1::nat), Num 1, Img 2])
   \<and> delays (Animation_init [Img (1::nat), Num 1, Img 2] None) = [Num 1, Num 31557600]
   \<and> length (delays (Animation_init [Img (1::nat), Num 1, Img 2] None))
       = length (images (Animation_init [Img (1::nat), Num 1, Img 2] None))
   \<and> last (delays (Animation_init [Img (1::nat), Num 1, Img 2] None)) = Num 31557600"
proof -
  have o: "odd (length [Img (1::nat), Num 1, Img 2])" by simp
  have d: "delays (Animation_init [Img (1::nat), Num 1, Img 2] None) = [Num 1, Num 31557600]"
    by (simp add: Animation_init_def)
  from Animation_render_frames [of 1 2 None, THEN conjunct2, THEN conjunct2, THEN conjunct2,
      THEN conjunct2, rule_format, OF o] o d
  show ?thesis by blast
qed


subsection \<open>The state machine as a transition\<close>

lemma motion_copy_raises: "image s \<noteq> None \<Longrightarrow> motion_copy s c = Inl (AttributeError ''mage'')"
  by (simp add: motion_copy_def)


text \<open>
  Claim C9 does not hold of the code: calling an \<open>SMAnimation\<close> one of whose states
  has an image raises \<open>AttributeError\<close>, because \<open>motion_copy\<close> reads the attribute
  \<open>mage\<close> where \<open>image\<close> is meant. The call below is on the example machine, whose
  two states both have images.
\<close>

theorem SMAnimation_call_raises:
  "SMAnimation_call machine (Some 7) None = Inl (AttributeError ''mage'')"
  by code_simp

text \<open>When no state has an image the call returns, but the copy does not have the
  edges of the original: every entry of an adjacency list is added again with its
  weight, so an edge of weight 3 has 9 entries in the copy.\<close>

lemma SMAnimation_call_squares_weights:
  "length (adjacency motion_machine ''A'') = 4
   \<and> map_sum id (\<lambda>c. length (adjacency c ''A'')) (SMAnimation_call motion_machine (Some 7) None)
       = Inr 10"
  by code_simp

section \<open>Properties of layout.py\<close>

subsection \<open>The transposition of a grid\<close>

lemma fold_update_upt:
  "n \<le> length xs \<Longrightarrow> fold (\<lambda>k xs. xs[k := g k]) [0 ..< n] xs = map g [0 ..< n] @ drop n xs"
proof (induction n)
  case 0
  show ?case by simp
next
  case (Suc n)
  then have n: "n < length xs" by simp
  have "fold (\<lambda>k xs. xs[k := g k]) [0 ..< Suc n] xs = (map g [0 ..< n] @ drop n xs)[n := g n]"
    using Suc by simp
  also have "\<dots> = map g [0 ..< n] @ (drop n xs)[0 := g n]"
    by (simp add: list_update_append)
  also have "(drop n xs)[0 := g n] = g n # drop (Suc n) xs"
    using n by (simp add: Cons_nth_drop_Suc [symmetric])
  finally show ?case by simp
qed

lemma fold_row:
  fixes F :: "nat \<Rightarrow> 'v \<Rightarrow> 's \<Rightarrow> 's"
  shows "fold (\<lambda>x. F (x + y * C) (h x y)) [0 ..< C] s
       = fold (\<lambda>k. F k (h (k mod C) (k div C))) [y * C ..< y * C + C] s"
proof -
  have "[y * C ..< y * C + C] = map (\<lambda>x. x + y * C) [0 ..< C]"
    by (simp add: map_add_upt add.commute)
  then have "fold (\<lambda>k. F k (h (k mod C) (k div C))) [y * C ..< y * C + C] s
           = fold ((\<lambda>k. F k (h (k mod C) (k div C))) \<circ> (\<lambda>x. x + y * C)) [0 ..< C] s"
    by (simp add: fold_map)
  also have "\<dots> = fold (\<lambda>x. F (x + y * C) (h x y)) [0 ..< C] s"
    by (rule fold_cong) auto
  finally show ?thesis by simp
qed

lemma fold_rows:
  fixes F :: "nat \<Rightarrow> 'v \<Rightarrow> 's \<Rightarrow> 's"
  shows "fold (\<lambda>y. fold (\<lambda>x. F (x + y * C) (h x y)) [0 ..< C]) [0 ..< R] s
       = fold (\<lambda>k. F k (h (k mod C) (k div C))) [0 ..< R * C] s"
proof (induction R)
  case 0
  show ?case by simp
next
  case (Suc R)
  have u: "[0 ..< Suc R * C] = [0 ..< R * C] @ [R * C ..< R * C + C]"
    using upt_add_eq_append [of 0 "R * C" C] by (simp add: add.commute)
  have "fold (\<lambda>y. fold (\<lambda>x. F (x + y * C) (h x y)) [0 ..< C]) [0 ..< Suc R] s
      = fold (\<lambda>x. F (x + R * C) (h x R)) [0 ..< C]
          (fold (\<lambda>y. fold (\<lambda>x. F (x + y * C) (h x y)) [0 ..< C]) [0 ..< R] s)"
    by simp
  also have "\<dots> = fold (\<lambda>k. F k (h (k mod C) (k div C))) [R * C ..< R * C + C]
          (fold (\<lambda>k. F k (h (k mod C) (k div C))) [0 ..< R * C] s)"
    unfolding Suc by (rule fold_row [where F = F and h = h and y = R and C = C])
  also have "\<dots> = fold (\<lambda>k. F k (h (k mod C) (k div C))) [0 ..< Suc R * C] s"
    unfolding u by simp
  finally show ?case .
qed


lemma transposed_nat:
  assumes "0 \<le> c" and "0 \<le> r"
  shows "transposed c r olds
       = fold (\<lambda>y. fold (\<lambda>x chs. chs[x + y * nat c := olds ! (y + x * nat r)]) [0 ..< nat c])
              [0 ..< nat r] olds"
proof -
  have i: "nat (int x + int y * c) = x + y * nat c" for x y
    using assms by (simp add: nat_add_distrib nat_mult_distrib)
  have j: "nat (int y + int x * r) = y + x * nat r" for x y
    using assms by (simp add: nat_add_distrib nat_mult_distrib)
  show ?thesis
    by (simp add: transposed_def range0_def fold_map comp_def i j)
qed

lemma transposed_eq:
  assumes "0 \<le> c" and "0 \<le> r" and "int (length olds) = c * r"
  shows "transposed c r olds = map (\<lambda>k. olds ! cell_source (nat c) (nat r) k) [0 ..< length olds]"
proof -
  have n: "length olds = nat r * nat c"
    using assms by (metis nat_int nat_mult_distrib mult.commute)
  have "transposed c r olds
      = fold (\<lambda>k chs. chs[k := olds ! (k div nat c + (k mod nat c) * nat r)]) [0 ..< nat r * nat c] olds"
    unfolding transposed_nat [OF assms(1,2)]
    by (rule fold_rows [where F = "\<lambda>k v chs. chs[k := v]" and h = "\<lambda>x y. olds ! (y + x * nat r)"
          and C = "nat c" and R = "nat r"])
  also have "\<dots> = map (\<lambda>k. olds ! (k div nat c + (k mod nat c) * nat r)) [0 ..< nat r * nat c]
                    @ drop (nat r * nat c) olds"
    by (rule fold_update_upt) (simp add: n)
  finally show ?thesis by (simp add: n cell_source_def)
qed

lemma cell_source_less:
  assumes "k < R * C"
  shows "cell_source C R k < R * C"
proof -
  from assms have C: "0 < C" by (cases C) simp_all
  have a: "k div C < R" using assms C by (simp add: less_mult_imp_div_less)
  have b: "k mod C < C" using C by simp
  then have "k mod C \<le> C - 1" by simp
  then have m: "(k mod C) * R \<le> (C - 1) * R" by (rule mult_le_mono1)
  from a m have "k div C + (k mod C) * R < R + (C - 1) * R" by (rule add_less_le_mono)
  also have "\<dots> = R * C" using C by (cases C) (simp_all add: mult.commute)
  finally show ?thesis by (simp add: cell_source_def)
qed

lemma cell_source_inverse:
  assumes "k < R * C"
  shows "cell_source C R k div R = k mod C" and "cell_source C R k mod R = k div C"
proof -
  from assms have C: "0 < C" by (cases C) simp_all
  have a: "k div C < R" using assms C by (simp add: less_mult_imp_div_less)
  show "cell_source C R k div R = k mod C" and "cell_source C R k mod R = k div C"
    using a by (simp_all add: cell_source_def)
qed

lemma cell_source_inj: "inj_on (cell_source C R) {0 ..< R * C}"
proof (rule inj_onI)
  fix j k
  assume "j \<in> {0 ..< R * C}" and "k \<in> {0 ..< R * C}"
    and e: "cell_source C R j = cell_source C R k"
  then have j: "j < R * C" and k: "k < R * C" by simp_all
  from cell_source_inverse [OF j] cell_source_inverse [OF k] e
  have "j mod C = k mod C" and "j div C = k div C" by simp_all
  then show "j = k" by (metis div_mult_mod_eq)
qed

lemma cell_source_image: "cell_source C R ` {0 ..< R * C} = {0 ..< R * C}"
  by (rule endo_inj_surj) (auto simp add: cell_source_inj cell_source_less)

lemma mset_transposed:
  assumes "0 \<le> c" and "0 \<le> r" and "int (length olds) = c * r"
  shows "mset (transposed c r olds) = mset olds"
proof -
  let ?n = "length olds" and ?f = "cell_source (nat c) (nat r)"
  have n: "?n = nat r * nat c"
    using assms by (metis nat_int nat_mult_distrib mult.commute)
  have "mset (transposed c r olds) = image_mset (nth olds) (image_mset ?f (mset [0 ..< ?n]))"
    by (simp add: transposed_eq [OF assms] multiset.map_comp comp_def)
  also have "image_mset ?f (mset [0 ..< ?n]) = mset_set (?f ` {0 ..< ?n})"
    using cell_source_inj [of "nat c" "nat r"]
    by (simp add: n image_mset_mset_set mset_upt)
  also have "?f ` {0 ..< ?n} = {0 ..< ?n}"
    by (simp add: n cell_source_image)
  also have "image_mset (nth olds) (mset_set {0 ..< ?n}) = mset (map (nth olds) [0 ..< ?n])"
    by (simp add: mset_upt)
  also have "\<dots> = mset olds" by (simp add: map_nth)
  finally show ?thesis .
qed

lemma nth_transposed:
  assumes "0 \<le> c" and "0 \<le> r" and "int (length olds) = c * r"
    and "0 \<le> x" and "x < c" and "0 \<le> y" and "y < r"
  shows "transposed c r olds ! nat (x + y * c) = olds ! nat (y + x * r)"
proof -
  have n: "length olds = nat r * nat c"
    using assms by (metis nat_int nat_mult_distrib mult.commute)
  have k: "nat (x + y * c) = nat x + nat y * nat c"
    using assms by (simp add: nat_add_distrib nat_mult_distrib)
  have "nat y * nat c + nat x < nat y * nat c + nat c" using assms by simp
  also have "\<dots> = Suc (nat y) * nat c" by simp
  also have "\<dots> \<le> nat r * nat c"
    using assms by (intro mult_le_mono1) simp
  finally have l: "nat x + nat y * nat c < length olds" by (simp add: n add.commute)
  have s: "cell_source (nat c) (nat r) (nat x + nat y * nat c) = nat y + nat x * nat r"
    using assms by (simp add: cell_source_def)
  have "nat (y + x * r) = nat y + nat x * nat r"
    using assms by (simp add: nat_add_distrib nat_mult_distrib)
  then show ?thesis
    using l by (simp add: transposed_eq [OF assms(1-3)] k s)
qed



lemma Grid_cells_keeps:
  "children (snd (Grid_cells R g rw rh rs)) = children g"
  "transpose (snd (Grid_cells R g rw rh rs)) = transpose g"
  "cols (snd (Grid_cells R g rw rh rs)) = cols g"
  "rows (snd (Grid_cells R g rw rh rs)) = rows g"
  by (simp_all add: Grid_cells_def Let_def split: prod.splits)

lemma Grid_layout_keeps:
  "children (snd (Grid_layout R g w h st at')) = children g"
  "transpose (snd (Grid_layout R g w h st at')) = transpose g"
  "cols (snd (Grid_layout R g w h st at')) = cols g"
  "rows (snd (Grid_layout R g w h st at')) = rows g"
  by (simp_all add: Grid_layout_def Grid_cells_keeps split: sum.splits)

lemma Grid_render_state:
  "children (snd (Grid_render R g w h st at'))
     = (if int (length (children g)) = cols g * rows g \<and> transpose g
        then transposed (cols g) (rows g) (children g) else children g)"
  "transpose (snd (Grid_render R g w h st at'))
     = (transpose g \<and> int (length (children g)) \<noteq> cols g * rows g)"
  "cols (snd (Grid_render R g w h st at')) = cols g"
  "rows (snd (Grid_render R g w h st at')) = rows g"
  by (simp_all add: Grid_render_def Grid_layout_keeps Grid_transpose_def)

lemma Grid_renders_keep:
  "\<not> transpose g \<Longrightarrow>
     children (Grid_renders R calls g) = children g \<and> \<not> transpose (Grid_renders R calls g)"
proof (induction calls arbitrary: g)
  case Nil
  then show ?case by (simp add: Grid_renders_def)
next
  case (Cons c calls)
  obtain w h st at' where c: "c = (w, h, st, at')" by (cases c)
  have "\<not> transpose (snd (Grid_render R g w h st at'))"
    and "children (snd (Grid_render R g w h st at')) = children g"
    using Cons.prems by (simp_all add: Grid_render_state)
  with Cons.IH [of "snd (Grid_render R g w h st at')"] show ?case
    by (simp add: Grid_renders_def c)
qed

text \<open>
  Claim C6. \<open>Grid.render\<close> on a grid whose number of children differs from
  \<open>cols * rows\<close> raises the exception ``Grid not completely full.'' at once: nothing
  is rendered or laid out, and the grid, its list of children included, is left as it
  was.
\<close>

theorem Grid_render_not_full:
  "int (length (children g)) \<noteq> cols g * rows g \<Longrightarrow>
     Grid_render R g width height st at' = (Inl (Exception ''Grid not completely full.''), g)"
  by (simp add: Grid_render_def)

theorem Grid_render_not_full_witness:
  "int (length (children grid5)) = 5 \<and> cols grid5 * rows grid5 = 6
   \<and> Grid_render plain_renderer grid5 800 600 0 0
       = (Inl (Exception ''Grid not completely full.''), grid5)"
proof -
  have l: "int (length (children grid5)) = 5" and c: "cols grid5 * rows grid5 = 6"
    by (simp_all add: grid5_def Grid_init_def Container_add_def)
  then have "int (length (children grid5)) \<noteq> cols grid5 * rows grid5" by simp
  from Grid_render_not_full [OF this] l c show ?thesis by simp
qed

text \<open>
  Claim C7. For a grid with the transpose flag set and exactly \<open>cols * rows\<close>
  children (\<open>cols\<close> and \<open>rows\<close> being counts), the first \<open>render\<close> clears the flag and
  permutes the children: the cell of column \<open>x\<close> and row \<open>y\<close>, stored at index
  \<open>x + y * cols\<close>, receives the child that was given as number \<open>y + x * rows\<close>, that is
  the children, in the order they were given, now fill the grid column by column
  instead of row by row. No child is lost or
  duplicated. Every later \<open>render\<close>, whatever its arguments, leaves the order of the
  children as it is.
\<close>

theorem Grid_render_transposes_once:
  assumes "transpose g" and "int (length (children g)) = cols g * rows g"
    and "0 \<le> cols g" and "0 \<le> rows g"
  shows "let g1 = snd (Grid_render R g width height st at') in
           \<not> transpose g1
         \<and> mset (children g1) = mset (children g)
         \<and> (\<forall>x y. 0 \<le> x \<and> x < cols g \<and> 0 \<le> y \<and> y < rows g \<longrightarrow>
               children g1 ! nat (x + y * cols g) = children g ! nat (y + x * rows g))
         \<and> (\<forall>calls. children (Grid_renders R' calls g1) = children g1
                    \<and> \<not> transpose (Grid_renders R' calls g1))"
proof -
  let ?g1 = "snd (Grid_render R g width height st at')"
  have c: "children ?g1 = transposed (cols g) (rows g) (children g)"
    and t: "\<not> transpose ?g1"
    using assms(1,2) by (simp_all add: Grid_render_state)
  have m: "mset (children ?g1) = mset (children g)"
    unfolding c using assms(3,4,2) by (rule mset_transposed)
  have n: "children ?g1 ! nat (x + y * cols g) = children g ! nat (y + x * rows g)"
    if "0 \<le> x \<and> x < cols g \<and> 0 \<le> y \<and> y < rows g" for x y
    unfolding c using assms(3,4,2) that by (intro nth_transposed) simp_all
  from t m n Grid_renders_keep [OF t] show ?thesis
    unfolding Let_def by blast
qed

theorem Grid_render_transposes_once_witness:
  "transpose grid6 \<and> int (length (children grid6)) = cols grid6 * rows grid6
   \<and> 0 \<le> cols grid6 \<and> 0 \<le> rows grid6
   \<and> children grid6 = [0, 1, 2, 3, 4, 5]
   \<and> children (snd (Grid_render plain_renderer grid6 800 600 0 0)) = [0, 2, 4, 1, 3, 5]
   \<and> (let g1 = snd (Grid_render plain_renderer grid6 800 600 0 0) in
           \<not> transpose g1
         \<and> mset (children g1) = mset (children grid6)
         \<and> (\<forall>x y. 0 \<le> x \<and> x < cols grid6 \<and> 0 \<le> y \<and> y < rows grid6 \<longrightarrow>
               children g1 ! nat (x + y * cols grid6) = children grid6 ! nat (y + x * rows grid6))
         \<and> (\<forall>calls. children (Grid_renders plain_renderer calls g1) = children g1
                    \<and> \<not> transpose (Grid_renders plain_renderer calls g1)))"
proof -
  have h1: "transpose grid6" and h2: "int (length (children grid6)) = cols grid6 * rows grid6"
    and h3: "0 \<le> cols grid6" and h4: "0 \<le> rows grid6"
    and c0: "children grid6 = [0, 1, 2, 3, 4, 5]"
    by (simp_all add: grid6_def Grid_init_def Container_add_def)
  have c1: "children (snd (Grid_render plain_renderer grid6 800 600 0 0)) = [0, 2, 4, 1, 3, 5]"
    by code_simp
  from Grid_render_transposes_once [OF h1 h2 h3 h4, of plain_renderer 800 600 0 0 plain_renderer]
    h1 h2 h3 h4 c0 c1
  show ?thesis by blast
qed


subsection \<open>The bookkeeping of the containers\<close>

text \<open>\<open>Fixed\<close> (filled through \<open>add\<close>), \<open>MultiBox\<close> and \<open>Grid\<close> rebuild both lists
  with one entry for each child.\<close>

lemma map_err_length: "map_err f xs = Inr ys \<Longrightarrow> length ys = length xs"
  by (induction xs arbitrary: ys) (auto split: sum.splits)

lemma Fixed_loop_lengths:
  "length (sizes (Fixed_loop R t w h l f)) = length (sizes f) + length l
   \<and> length (offsets (Fixed_loop R t w h l f)) = length (offsets f) + length l
   \<and> children (Fixed_loop R t w h l f) = children f"
proof (induction l arbitrary: f)
  case Nil
  show ?case by simp
next
  case (Cons a l)
  obtain c start anim where a: "a = (c, start, anim)" by (cases a)
  show ?case by (simp add: a Cons.IH split: option.splits)
qed

lemma Fixed_add_times:
  "length (children f) \<le> length (start_times f) \<Longrightarrow>
   length (children f) \<le> length (anim_times f) \<Longrightarrow>
   length (children (Fixed_add w s a f)) \<le> length (start_times (Fixed_add w s a f))
   \<and> length (children (Fixed_add w s a f)) \<le> length (anim_times (Fixed_add w s a f))"
  by (cases w) (simp_all add: Fixed_add_def Container_add_def)

lemma Fixed_render_aligned:
  assumes "length (children f) \<le> length (start_times f)"
    and "length (children f) \<le> length (anim_times f)"
  shows "aligned (snd (Fixed_render R t it f w h st at'))"
    and "children (snd (Fixed_render R t it f w h st at')) = children f"
  using assms by (simp_all add: Fixed_render_def Let_def Fixed_loop_lengths aligned_def)

lemma hbox_loop_lengths:
  "hbox_loop R pad h st at' cs rem xo mh xoffs b = (Inr (xo', mh', xoffs'), b') \<Longrightarrow>
     length (sizes b') = length (sizes b) + length cs
   \<and> length xoffs' = length xoffs + length cs
   \<and> children b' = children b"
proof (induction cs arbitrary: rem xo mh xoffs b)
  case Nil
  then show ?case by simp
next
  case (Cons c cs)
  then show ?case
    by (auto split: sum.splits prod.splits)
qed

lemma vbox_loop_lengths:
  "vbox_loop R pad w st at' cs rem yo mw yoffs b = (Inr (yo', mw', yoffs'), b') \<Longrightarrow>
     length (sizes b') = length (sizes b) + length cs
   \<and> length yoffs' = length yoffs + length cs
   \<and> children b' = children b"
proof (induction cs arbitrary: rem yo mw yoffs b)
  case Nil
  then show ?case by simp
next
  case (Cons c cs)
  then show ?case
    by (auto split: sum.splits prod.splits)
qed

lemma MultiBox_render_aligned:
  assumes "MultiBox_render R b w h st at' = (Inr sz, b')"
  shows "aligned b'" and "children b' = children b"
proof -
  let ?b0 = "b\<lparr> offsets := [], sizes := [] \<rparr>"
  have "aligned b' \<and> children b' = children b"
  proof (cases "(case box_layout b of None \<Rightarrow> default_layout b | Some l \<Rightarrow> Some l) = Some ''horizontal''")
    case True
    with assms obtain xo mh xoffs b1 where
      l: "hbox_loop R (box_spacing b) h st at' (children ?b0) w 0 0 [] ?b0 = (Inr (xo, mh, xoffs), b1)"
      and b': "b' = b1\<lparr> offsets := map (\<lambda>((sw, sh), c, x). place R c x 0 sw mh (sw, sh))
                           (zip (sizes b1) (zip (children b1) xoffs)) \<rparr>"
      by (auto simp add: MultiBox_render_def Let_def split: prod.splits sum.splits)
    from hbox_loop_lengths [OF l] show ?thesis
      by (simp add: b' aligned_def)
  next
    case False
    with assms obtain yo mw yoffs b1 where
      l: "vbox_loop R (box_spacing b) w st at' (children ?b0) h 0 0 [] ?b0 = (Inr (yo, mw, yoffs), b1)"
      and b': "b' = b1\<lparr> offsets := map (\<lambda>((sw, sh), c, y). place R c 0 y mw sh (sw, sh))
                           (zip (sizes b1) (zip (children b1) yoffs)) \<rparr>"
      by (auto simp add: MultiBox_render_def Let_def split: prod.splits sum.splits)
    from vbox_loop_lengths [OF l] show ?thesis
      by (simp add: b' aligned_def)
  qed
  then show "aligned b'" and "children b' = children b" by simp_all
qed

lemma Grid_offsets_length:
  "length (Grid_offsets R g rs cw ch) = nat (rows g) * nat (cols g)"
  by (simp add: Grid_offsets_def range0_def length_concat comp_def sum_list_triv)

lemma length_fold_update:
  "length (fold (\<lambda>x chs. chs[f x := v x]) xs chs) = length chs"
  by (induction xs arbitrary: chs) simp_all

lemma length_fold_fold_update:
  "length (fold (\<lambda>y chs. fold (\<lambda>x chs. chs[f x y := v x y]) xs chs) ys chs) = length chs"
  by (induction ys arbitrary: chs) (simp_all add: length_fold_update)

lemma length_transposed: "length (transposed c r chs) = length chs"
  unfolding transposed_def by (rule length_fold_fold_update)

lemma Grid_render_aligned:
  assumes "Grid_render R g w h st at' = (Inr sz, g')" and "0 \<le> cols g" and "0 \<le> rows g"
  shows "aligned g'"
proof -
  let ?g1 = "Grid_transpose g"
  from assms(1) have n: "int (length (children g)) = cols g * rows g"
    and l: "Grid_layout R ?g1 w h st at' = (Inr sz, g')"
    by (auto simp add: Grid_render_def split: if_splits)
  from l obtain rw rh rs where
    m: "map_err (\<lambda>c. render_size R (Some c) rw rh st at') (children ?g1) = Inr rs"
    and c: "Grid_cells R ?g1 rw rh rs = (Inr sz, g')"
    by (auto simp add: Grid_layout_def split: sum.splits)
  have k: "length (children ?g1) = length (children g)" "cols ?g1 = cols g" "rows ?g1 = rows g"
    by (simp_all add: Grid_transpose_def length_transposed)
  have "length (children g) = nat (cols g * rows g)"
    using n by simp
  also have "\<dots> = nat (rows g) * nat (cols g)"
    using assms(2,3) by (simp add: nat_mult_distrib mult.commute)
  finally have n1: "length (children g) = nat (rows g) * nat (cols g)" .
  from c have "children g' = children ?g1" and "sizes g' = rs"
    and "length (offsets g') = nat (rows ?g1) * nat (cols ?g1)"
    by (auto simp add: Grid_cells_def Let_def Grid_offsets_length split: prod.splits)
  with map_err_length [OF m] k n1 show ?thesis
    by (simp add: aligned_def)
qed

text \<open>\<open>Position\<close> and \<open>Motion\<close> write one entry for the one child they
  render.\<close>

lemma Position_render_single:
  "Position_render R c w h st at' = (Inr sz, c') \<Longrightarrow>
     offsets c' = [(0, 0)] \<and> sizes c' = [sz] \<and> children c' = children c"
  by (auto simp add: Position_render_def split: sum.splits prod.splits)

lemma Motion_render_single:
  "Motion_render R m w h st at' = (Inr fr, m') \<Longrightarrow>
     m_offsets m' = [(0, 0)] \<and> m_sizes m' = [frame_size fr] \<and> m_children m' = m_children m"
  by (auto simp add: Motion_render_def split: sum.splits prod.splits list.splits)

text \<open>
  Claim C1 does not hold of the base class: \<open>Container.render\<close> renders only
  \<open>self.child\<close>, the child added last, and writes lists of one entry, whatever the
  number of children. For a \<open>Container\<close> built with two children the offsets and
  sizes have one entry each after \<open>render\<close>, for two children. The docstring of the class
  describes \<open>offsets\<close> as ``a list giving offsets for each of our children'', and
  \<open>event\<close> pairs the children with the offsets.
\<close>

theorem Container_render_misses_children:
  "(case Container_render plain_renderer (Container_init [Some 1, Some 2]) 800 600 0 0 of
      (out, c) \<Rightarrow> out = Inr (10, 20) \<and> children c = [1, 2] \<and> child c = Some 2
                  \<and> offsets c = [(0, 0)] \<and> sizes c = [(10, 20)])"
  by code_simp


subsection \<open>Motion\<close>

lemma Motion_progress_clamped:
  fixes m :: "'c Motion"
  assumes "m = Motion_init f 2 c nw False False (Some 2) atb"
  shows "Motion_progress m t = (if 2 \<le> t then Inr (1, []) else Inr (t / 2, [0]))"
  by (simp add: assms Motion_init_def Let_def Motion_progress_def pydiv_def)

lemma Motion_render_samples:
  assumes "Motion_render R m w h st at' = (Inr fr, m')"
  shows "Motion_progress m (if m_anim_timebase m then at' else st) = Inr (progress fr, redraws fr)"
    and "map Some (func m (progress fr))
           = take (length (func m (progress fr))) [xpos m', ypos m', xanchor m', yanchor m']"
    and "length (func m (progress fr)) = 2 \<or> length (func m (progress fr)) = 4"
  using assms
  by (auto simp add: Motion_render_def split: sum.splits prod.splits list.splits)

lemma Motion_render_returns:
  assumes "Motion_progress m (if m_anim_timebase m then at' else st) = Inr (p, rds)"
    and "length (func m p) = 2 \<or> length (func m p) = 4"
    and "render_size R (m_child m) w h st at' = Inr sz"
  shows "\<exists>m'. Motion_render R m w h st at'
            = (Inr \<lparr> progress = p, redraws = rds, frame_size = sz \<rparr>, m')"
proof -
  from assms(2) consider x y where "func m p = [x, y]" | x y xa ya where "func m p = [x, y, xa, ya]"
    by (auto simp add: length_Suc_conv numeral_2_eq_2 numeral_eq_Suc)
  then show ?thesis
    using assms(1,3) by cases (simp_all add: Motion_render_def)
qed


text \<open>
  Claim C4. For a \<open>Motion\<close> with \<open>repeat=False\<close>, \<open>bounce=False\<close>, \<open>period=2.0\<close> and
  \<open>delay=2.0\<close>: at time 0 the function is sampled at 0; at every time from 2 on it is
  sampled at exactly 1 and no redraw is requested; at every time below 2 it is sampled
  at half the time and a redraw (with delay 0) is requested. In a \<open>render\<close> call that
  returns, the positions written to the style are the components of the function's value
  at that point, for the time of the chosen time base; and the call does return when
  that value has two or four components and the child renders.
\<close>

theorem Motion_render_clamps_at_delay:
  "Motion_progress (Motion_init f 2 c nw False False (Some 2) atb) 0 = Inr (0, [0])
   \<and> (\<forall>t. 2 \<le> t \<longrightarrow> Motion_progress (Motion_init f 2 c nw False False (Some 2) atb) t = Inr (1, []))
   \<and> (\<forall>t. t < 2 \<longrightarrow> Motion_progress (Motion_init f 2 c nw False False (Some 2) atb) t = Inr (t / 2, [0]))
   \<and> (\<forall>R w h st at' fr m'.
         Motion_render R (Motion_init f 2 c nw False False (Some 2) atb) w h st at' = (Inr fr, m') \<longrightarrow>
         (if 2 \<le> (if atb then at' else st)
          then progress fr = 1 \<and> redraws fr = []
             \<and> map Some (f 1) = take (length (f 1)) [xpos m', ypos m', xanchor m', yanchor m']
          else progress fr = (if atb then at' else st) / 2 \<and> redraws fr = [0]
             \<and> map Some (f ((if atb then at' else st) / 2))
                 = take (length (f ((if atb then at' else st) / 2)))
                     [xpos m', ypos m', xanchor m', yanchor m']))
   \<and> (\<forall>R w h st at' sz.
         (length (f (if 2 \<le> (if atb then at' else st) then 1 else (if atb then at' else st) / 2)) = 2
          \<or> length (f (if 2 \<le> (if atb then at' else st) then 1 else (if atb then at' else st) / 2)) = 4)
         \<and> render_size R (case c of None \<Rightarrow> nw | Some _ \<Rightarrow> c) w h st at' = Inr sz \<longrightarrow>
         (\<exists>m'. Motion_render R (Motion_init f 2 c nw False False (Some 2) atb) w h st at'
            = (Inr \<lparr> progress = (if 2 \<le> (if atb then at' else st) then 1
                                   else (if atb then at' else st) / 2),
                      redraws = (if 2 \<le> (if atb then at' else st) then [] else [0]),
                      frame_size = sz \<rparr>, m')))"
proof (intro conjI allI impI)
  let ?m = "Motion_init f 2 c nw False False (Some 2) atb"
  have fields: "m_anim_timebase ?m = atb" "func ?m = f"
    "m_child ?m = (case c of None \<Rightarrow> nw | Some _ \<Rightarrow> c)"
    by (simp_all add: Motion_init_def Let_def)
  show "Motion_progress ?m 0 = Inr (0, [0])"
    by (simp add: Motion_progress_clamped [OF refl])
  show "Motion_progress ?m t = Inr (1, [])" if "2 \<le> t" for t
    using that by (simp add: Motion_progress_clamped [OF refl])
  show "Motion_progress ?m t = Inr (t / 2, [0])" if "t < 2" for t
    using that by (simp add: Motion_progress_clamped [OF refl])
  show "if 2 \<le> (if atb then at' else st)
          then progress fr = 1 \<and> redraws fr = []
             \<and> map Some (f 1) = take (length (f 1)) [xpos m', ypos m', xanchor m', yanchor m']
          else progress fr = (if atb then at' else st) / 2 \<and> redraws fr = [0]
             \<and> map Some (f ((if atb then at' else st) / 2))
                 = take (length (f ((if atb then at' else st) / 2)))
                     [xpos m', ypos m', xanchor m', yanchor m']"
    if r: "Motion_render R ?m w h st at' = (Inr fr, m')" for R w h st at' fr m'
  proof -
    let ?t = "if atb then at' else st"
    from Motion_render_samples(1) [OF r]
    have p: "progress fr = (if 2 \<le> ?t then 1 else ?t / 2)"
      and d: "redraws fr = (if 2 \<le> ?t then [] else [0])"
      by (simp_all add: fields Motion_progress_clamped [OF refl] split: if_splits)
    from Motion_render_samples(2) [OF r]
    have s: "map Some (f (progress fr))
           = take (length (f (progress fr))) [xpos m', ypos m', xanchor m', yanchor m']"
      by (simp add: fields)
    show ?thesis
    proof (cases "2 \<le> ?t")
      case True
      then have p1: "progress fr = 1" using p by (simp only: if_True)
      from s [unfolded p1] p1 d True show ?thesis by (simp only: if_True simp_thms)
    next
      case False
      then have p2: "progress fr = ?t / 2" using p by (simp only: if_False)
      from s [unfolded p2] p2 d False show ?thesis by (simp only: if_False simp_thms)
    qed
  qed
  show "\<exists>m'. Motion_render R ?m w h st at'
            = (Inr \<lparr> progress = (if 2 \<le> (if atb then at' else st) then 1
                                   else (if atb then at' else st) / 2),
                      redraws = (if 2 \<le> (if atb then at' else st) then [] else [0]),
                      frame_size = sz \<rparr>, m')"
    if a: "(length (f (if 2 \<le> (if atb then at' else st) then 1 else (if atb then at' else st) / 2)) = 2
          \<or> length (f (if 2 \<le> (if atb then at' else st) then 1 else (if atb then at' else st) / 2)) = 4)
         \<and> render_size R (case c of None \<Rightarrow> nw | Some _ \<Rightarrow> c) w h st at' = Inr sz"
    for R w h st at' sz
  proof -
    let ?t = "if atb then at' else st"
    let ?p = "if 2 \<le> ?t then 1 else ?t / 2"
    let ?d = "if 2 \<le> ?t then [] else [0::rat]"
    have 1: "Motion_progress ?m (if m_anim_timebase ?m then at' else st) = Inr (?p, ?d)"
      by (simp add: fields Motion_progress_clamped [OF refl])
    have 2: "length (func ?m ?p) = 2 \<or> length (func ?m ?p) = 4"
      using a by (simp add: fields)
    have 3: "render_size R (m_child ?m) w h st at' = Inr sz"
      using a by (simp add: fields)
    from Motion_render_returns [OF 1 2 3] show ?thesis .
  qed
qed

theorem Motion_render_clamps_at_delay_witness:
  "Motion_render plain_renderer motion2 800 600 0 5
       = (Inr \<lparr> progress = 0, redraws = [0], frame_size = (10, 20) \<rparr>,
          motion2\<lparr> xpos := Some 0, ypos := Some 0, m_sizes := [(10, 20)], m_offsets := [(0, 0)] \<rparr>)
   \<and> Motion_render plain_renderer motion2 800 600 1 5
       = (Inr \<lparr> progress = 1 / 2, redraws = [0], frame_size = (10, 20) \<rparr>,
          motion2\<lparr> xpos := Some 50, ypos := Some 0, m_sizes := [(10, 20)], m_offsets := [(0, 0)] \<rparr>)
   \<and> Motion_render plain_renderer motion2 800 600 3 5
       = (Inr \<lparr> progress = 1, redraws = [], frame_size = (10, 20) \<rparr>,
          motion2\<lparr> xpos := Some 100, ypos := Some 0, m_sizes := [(10, 20)], m_offsets := [(0, 0)] \<rparr>)
   \<and> map Some (slide 1) = [Some 100, Some 0]
   \<and> map Some (slide (1 / 2)) = [Some 50, Some 0]
   \<and> Motion_progress motion2 3 = Inr (1, [])
   \<and> Motion_progress motion2 (1 / 2) = Inr (1 / 4, [0])"
proof -
  note inst = Motion_render_clamps_at_delay [of slide "Some (1::nat)" None False, folded motion2_def]
  have a: "(2::rat) \<le> 3" and b: "(1 / 2 :: rat) < 2" by simp_all
  have r0: "Motion_render plain_renderer motion2 800 600 0 5
       = (Inr \<lparr> progress = 0, redraws = [0], frame_size = (10, 20) \<rparr>,
          motion2\<lparr> xpos := Some 0, ypos := Some 0, m_sizes := [(10, 20)], m_offsets := [(0, 0)] \<rparr>)"
    and r1: "Motion_render plain_renderer motion2 800 600 1 5
       = (Inr \<lparr> progress = 1 / 2, redraws = [0], frame_size = (10, 20) \<rparr>,
          motion2\<lparr> xpos := Some 50, ypos := Some 0, m_sizes := [(10, 20)], m_offsets := [(0, 0)] \<rparr>)"
    and r3: "Motion_render plain_renderer motion2 800 600 3 5
       = (Inr \<lparr> progress = 1, redraws = [], frame_size = (10, 20) \<rparr>,
          motion2\<lparr> xpos := Some 100, ypos := Some 0, m_sizes := [(10, 20)], m_offsets := [(0, 0)] \<rparr>)"
    by (simp_all add: Motion_render_def motion2_def Motion_init_def Let_def Motion_progress_def
        pydiv_def slide_def plain_renderer_def render_size_def)
  have x: "xpos (motion2\<lparr> xpos := Some 100, ypos := Some 0, m_sizes := [(10, 20)], m_offsets := [(0, 0)] \<rparr>) = Some 100"
    "ypos (motion2\<lparr> xpos := Some 100, ypos := Some 0, m_sizes := [(10, 20)], m_offsets := [(0, 0)] \<rparr>) = Some 0"
    "xpos (motion2\<lparr> xpos := Some 50, ypos := Some 0, m_sizes := [(10, 20)], m_offsets := [(0, 0)] \<rparr>) = Some 50"
    "ypos (motion2\<lparr> xpos := Some 50, ypos := Some 0, m_sizes := [(10, 20)], m_offsets := [(0, 0)] \<rparr>) = Some 0"
    "length (slide t) = 2" for t
    by (simp_all add: slide_def)
  from inst [THEN conjunct2, THEN conjunct2, THEN conjunct2, THEN conjunct1, rule_format, OF r3]
  have s3: "map Some (slide 1) = [Some 100, Some 0]"
    by (simp add: x)
  from inst [THEN conjunct2, THEN conjunct2, THEN conjunct2, THEN conjunct1, rule_format, OF r1]
  have s1: "map Some (slide (1 / 2)) = [Some 50, Some 0]"
    by (simp add: x)
  from inst [THEN conjunct2, THEN conjunct1, rule_format, OF a]
    inst [THEN conjunct2, THEN conjunct2, THEN conjunct1, rule_format, OF b]
    r0 r1 r3 s1 s3
  show ?thesis by simp
qed


subsection \<open>Zoom\<close>

lemma zoom_done_one: "zoom_done z st = 1 \<longleftrightarrow> z_time z = 0 \<or> 1 \<le> st / z_time z"
  by (auto simp add: zoom_done_def min_def)

text \<open>
  Claim C8, as amended: the switch is not permanent. For a \<open>Zoom\<close> with an
  after-child, a \<open>render\<close> call returns the rendering of the after-child exactly when
  the completion ratio of that call is 1: the time of the zoom is zero, or the shown
  time over it is at least 1 (for a positive time: the shown time has reached it).
  \<open>render\<close> keeps no state, so the choice depends on the shown time of the call
  alone: after a call that showed the after-child, a call with a shown time below the
  time of the zoom shows the zooming child again and requests a redraw.
\<close>

theorem Zoom_render_after_child:
  "(\<forall>a. after_child z = Some a \<longrightarrow>
      (Zoom_render z st at' = AfterChild a \<longleftrightarrow> z_time z = 0 \<or> 1 \<le> st / z_time z))
   \<and> (\<forall>a. after_child z = Some a \<and> 0 < z_time z \<longrightarrow>
        (Zoom_render z st at' = AfterChild a \<longleftrightarrow> z_time z \<le> st))
   \<and> (\<forall>a st' at''. after_child z = Some a \<and> Zoom_render z st at' = AfterChild a
         \<and> 0 < z_time z \<and> st' < z_time z \<longrightarrow>
        Zoom_render z st' at''
          = Zoomed (z_child z)
              (map (\<lambda>(a, b). (1 - st' / z_time z) * a + st' / z_time z * b)
                   (zip (z_start z) (z_end z)))
              [0])"
  by (auto simp add: Zoom_render_def Let_def zoom_done_one zoom_done_def min_def
      pos_le_divide_eq pos_divide_less_eq split: option.splits)

theorem Zoom_render_after_child_witness:
  "after_child zoom2 = Some 2 \<and> 0 < z_time zoom2 \<and> z_time zoom2 \<le> 5 \<and> 1 < z_time zoom2
   \<and> Zoom_render zoom2 5 0 = AfterChild 2
   \<and> Zoom_render zoom2 1 0
       = Zoomed (z_child zoom2)
           (map (\<lambda>(a, b). (1 - 1 / z_time zoom2) * a + 1 / z_time zoom2 * b)
                (zip (z_start zoom2) (z_end zoom2)))
           [0]"
proof -
  have h: "after_child zoom2 = Some 2" "0 < z_time zoom2" "z_time zoom2 \<le> 5" "1 < z_time zoom2"
    by (simp_all add: zoom2_def Zoom_init_def)
  note inst = Zoom_render_after_child [of zoom2 5 0]
  from inst [THEN conjunct2, THEN conjunct1, rule_format, of 2] h
  have a: "Zoom_render zoom2 5 0 = AfterChild 2" by simp
  from inst [THEN conjunct2, THEN conjunct2, rule_format, of 2 1 0] h a
  have "Zoom_render zoom2 1 0
       = Zoomed (z_child zoom2)
           (map (\<lambda>(a, b). (1 - 1 / z_time zoom2) * a + 1 / z_time zoom2 * b)
                (zip (z_start zoom2) (z_end zoom2)))
           [0]"
    by simp
  with h a show ?thesis by simp
qed

text \<open>
  The claim as stated fails: the zoom of duration 2 shows its after-child at shown time
  2, and the zooming child again at shown time 1.
\<close>

theorem Zoom_render_reverts_counterexample:
  "after_child zoom2 = Some 2
   \<and> Zoom_render zoom2 2 0 = AfterChild 2
   \<and> Zoom_render zoom2 1 0 = Zoomed 1 [100, 75, 600, 450] [0]"
  by (simp add: zoom2_def Zoom_init_def Zoom_render_def zoom_done_def)


section \<open>Properties of ui.py\<close>

lemma add_opens_once:
  assumes "add w True True s = (Inr v, s')"
  shows "current_once s'" and "current s' = Widget w" and "current_stack s' \<noteq> []"
  using assms
  by (auto simp add: add_def Let_def split: prod.splits option.splits if_splits)

text \<open>
  Claim C10. \<open>ui.close()\<close> raises when the stack is empty, and also when the flag
  \<open>current_once\<close> is set, which is the case right after a widget was opened for a
  single child (\<open>add(w, True, True)\<close>, as \<open>ui.window\<close>, \<open>ui.button\<close> and \<open>ui.sizer\<close>
  do) and stays the case until a child is added: \<open>ui.layer\<close> raises while the
  widget is current, and \<open>ui.reopen\<close> keeps the flag. A call
  of \<open>close\<close> that raises leaves the module state, the stack included, as it was: it
  never pops the pending widget.
\<close>

theorem close_raises_when_expecting_widget:
  "(current_stack s = [] \<longrightarrow>
      close s = (Some (Exception ''ui.close() called to close the last open layer or widget.''), s))
   \<and> (current_stack s \<noteq> [] \<and> current_once s \<longrightarrow>
      close s = (Some (Exception ''ui.close() called when expecting a widget.''), s))
   \<and> (fst (close s) \<noteq> None \<longrightarrow> snd (close s) = s)
   \<and> (\<forall>w v s'. add w True True s = (Inr v, s') \<longrightarrow>
         current s' = Widget w \<and>
         close s' = (Some (Exception ''ui.close() called when expecting a widget.''), s') \<and>
         (\<forall>known n. layer known n s'
            = (Some (Exception ''Opening a layer while a widget is open is not allowed.''), s')) \<and>
         (\<forall>w' clear. fst (close (reopen w' clear s')) \<noteq> None
                    \<and> snd (close (reopen w' clear s')) = reopen w' clear s'))"
proof (intro conjI allI impI)
  show "close s = (Some (Exception ''ui.close() called to close the last open layer or widget.''), s)"
    if "current_stack s = []"
    using that by (simp add: close_def)
  show "close s = (Some (Exception ''ui.close() called when expecting a widget.''), s)"
    if "current_stack s \<noteq> [] \<and> current_once s"
    using that by (simp add: close_def)
  show "snd (close s) = s" if "fst (close s) \<noteq> None"
    using that by (simp add: close_def split: if_splits)
next
  fix w v s' w' clear known n
  assume a: "add w True True s = (Inr v, s')"
  from add_opens_once [OF a]
  show "current s' = Widget w"
    and "close s' = (Some (Exception ''ui.close() called when expecting a widget.''), s')"
    and "layer known n s'
            = (Some (Exception ''Opening a layer while a widget is open is not allowed.''), s')"
    and "fst (close (reopen w' clear s')) \<noteq> None"
    and "snd (close (reopen w' clear s')) = reopen w' clear s'"
    by (simp_all add: close_def reopen_def layer_def)
qed

theorem close_raises_when_expecting_widget_witness:
  "add 1 True True ui_init = (Inr 1, ui_window_open)
   \<and> current ui_window_open = Widget 1
   \<and> close ui_window_open
       = (Some (Exception ''ui.close() called when expecting a widget.''), ui_window_open)
   \<and> current_stack (snd (close ui_window_open)) = [Layer ''transient'']
   \<and> close (ui_init :: nat ui)
       = (Some (Exception ''ui.close() called to close the last open layer or widget.''), ui_init)"
proof -
  have a: "add 1 True True ui_init = (Inr 1, ui_window_open)"
    by (simp add: add_def ui_init_def ui_window_open_def)
  have e: "current_stack (ui_init :: nat ui) = []"
    by (simp add: ui_init_def)
  from close_raises_when_expecting_widget [of ui_init, THEN conjunct2, THEN conjunct2,
      THEN conjunct2, rule_format, OF a]
    close_raises_when_expecting_widget [of "ui_init :: nat ui", THEN conjunct1, rule_format, OF e] a
  show ?thesis by (simp add: ui_window_open_def)
qed


end
